theory Spec2Isabelle
  imports Complex_Main "HOL-Library.Multiset"
begin

section \<open>Truck route optimizer: Clarke-Wright savings and 2-opt\<close>

text \<open>
  A shallow embedding of the optimisation kernel of the application component
  (\<^verbatim>\<open>haversineKm\<close>, \<^verbatim>\<open>clarkeWright\<close> with its inner \<^verbatim>\<open>findRouteAndPos\<close> and
  \<^verbatim>\<open>twoOpt\<close>) and of the CSV helpers (\<^verbatim>\<open>toCSV\<close>, \<^verbatim>\<open>importCSV\<close>).

  JavaScript numbers are modelled as mathematical reals: rounding, NaN and the
  infinities are outside the model of the kernel (the CSV import has a number type of its
  own with NaN and the infinities).  A read of a property of \<^verbatim>\<open>undefined\<close> is the error
  value \<open>TypeError\<close>; a call that may throw returns \<open>error + 'a\<close>, and a call that may
  also loop for ever returns an option of that, \<open>None\<close> for the loop.
\<close>

subsection \<open>Types\<close>

text \<open>
  The interfaces \<^verbatim>\<open>{lat, lng}\<close>, \<^verbatim>\<open>Depot\<close> and \<^verbatim>\<open>Stop\<close> are structurally nested, so
  they are record extensions of one another: a function on \<open>'a LatLng_scheme\<close> takes a
  depot or a stop, as the TypeScript does.  The field \<^verbatim>\<open>id\<close> of a stop is \<open>stop_id\<close>, and
  the fields \<^verbatim>\<open>i\<close>, \<^verbatim>\<open>j\<close>, \<^verbatim>\<open>s\<close> of a saving are \<open>sav_i\<close>, \<open>sav_j\<close>, \<open>sav_s\<close>.
\<close>

record LatLng =
  lat :: real
  lng :: real

record Depot = LatLng +
  name :: string

record Stop = Depot +
  stop_id :: string
  demand :: real

record RouteResult =
  route :: "Stop list"
  distanceKm :: real
  load :: real

text \<open>The working route \<^verbatim>\<open>type R = { customers: Stop[]; load: number }\<close>.\<close>

record R =
  customers :: "Stop list"
  load :: real

datatype error = TypeError

subsection \<open>Geometry and distance\<close>

definition toRad :: "real \<Rightarrow> real" where
  "toRad deg = (deg * pi) / 180"

text \<open>The value \<^verbatim>\<open>h\<close> of \<^verbatim>\<open>haversineKm\<close>.\<close>

definition haversineH :: "'a LatLng_scheme \<Rightarrow> 'b LatLng_scheme \<Rightarrow> real" where
  "haversineH a b =
    (let dLat = toRad (lat b - lat a);
         dLon = toRad (lng b - lng a);
         lat1 = toRad (lat a);
         lat2 = toRad (lat b);
         sinDLat = sin (dLat / 2);
         sinDLon = sin (dLon / 2)
     in sinDLat * sinDLat + cos lat1 * cos lat2 * sinDLon * sinDLon)"

text \<open>The argument of \<^verbatim>\<open>Math.asin\<close>: \<^verbatim>\<open>Math.min(1, Math.sqrt(h))\<close>.\<close>

definition asinArg :: "'a LatLng_scheme \<Rightarrow> 'b LatLng_scheme \<Rightarrow> real" where
  "asinArg a b = min 1 (sqrt (haversineH a b))"

definition haversineKm :: "'a LatLng_scheme \<Rightarrow> 'b LatLng_scheme \<Rightarrow> real" where
  "haversineKm a b = (let R = 6371 in 2 * R * arcsin (asinArg a b))"

subsection \<open>Savings\<close>

text \<open>\<^verbatim>\<open>type Saving = { i: Stop; j: Stop; s: number }\<close>.\<close>

record Saving =
  sav_i :: Stop
  sav_j :: Stop
  sav_s :: real

text \<open>The key of the dictionary \<^verbatim>\<open>dij\<close>: \<^verbatim>\<open>`${i}|${j}`\<close>.\<close>

definition idKey :: "string \<Rightarrow> string \<Rightarrow> string" where
  "idKey a b = a @ ''|'' @ b"

text \<open>
  The two nested loops \<^verbatim>\<open>for i ... for j = i + 1 ...\<close> visit the pairs
  \<open>(customers[i], customers[j])\<close> with \<open>i < j\<close>, the outer index first: the head of the
  list with every later element, then the same on the tail.
\<close>

fun pairsInOrder :: "'a list \<Rightarrow> ('a \<times> 'a) list" where
  "pairsInOrder [] = []"
| "pairsInOrder (a # rest) = map (Pair a) rest @ pairsInOrder rest"

text \<open>\<^verbatim>\<open>for (const c of customers) d0[c.id] = haversineKm(depot, c)\<close>\<close>

definition d0_table :: "Depot \<Rightarrow> Stop list \<Rightarrow> (string \<rightharpoonup> real)" where
  "d0_table depot cs = fold (\<lambda>c m. m(stop_id c \<mapsto> haversineKm depot c)) cs Map.empty"

text \<open>
  \<^verbatim>\<open>dij[id(a.id, b.id)] = dij[id(b.id, a.id)] = haversineKm(a, b)\<close>: the right
  assignment is done first.
\<close>

definition dij_table :: "Stop list \<Rightarrow> (string \<rightharpoonup> real)" where
  "dij_table cs =
     fold (\<lambda>(a, b) m. (m(idKey (stop_id b) (stop_id a) \<mapsto> haversineKm a b))
                           (idKey (stop_id a) (stop_id b) \<mapsto> haversineKm a b))
          (pairsInOrder cs) Map.empty"

text \<open>The savings in the order they are pushed.\<close>

definition savingsGenerated :: "Depot \<Rightarrow> Stop list \<Rightarrow> Saving list" where
  "savingsGenerated depot cs =
     (let d0 = d0_table depot cs; dij = dij_table cs
      in map (\<lambda>(a, b). \<lparr>sav_i = a, sav_j = b,
                sav_s = the (d0 (stop_id a)) + the (d0 (stop_id b))
                        - the (dij (idKey (stop_id a) (stop_id b)))\<rparr>)
             (pairsInOrder cs))"

text \<open>
  \<^verbatim>\<open>savings.sort((a, b) => b.s - a.s)\<close>: \<^verbatim>\<open>Array.prototype.sort\<close> is a stable sort
  (ECMAScript 2019), here by descending \<open>s\<close>; the stable insertion sort of the library
  by the key \<open>- s\<close> is that sort.
\<close>

definition sortSavings :: "Saving list \<Rightarrow> Saving list" where
  "sortSavings sv = sort_key (\<lambda>e. - sav_s e) sv"

definition savings :: "Depot \<Rightarrow> Stop list \<Rightarrow> Saving list" where
  "savings depot cs = sortSavings (savingsGenerated depot cs)"

subsection \<open>Route merger\<close>

text \<open>The result \<^verbatim>\<open>{ rIdx, atStart }\<close> of \<^verbatim>\<open>findRouteAndPos\<close>; \<open>None\<close> in \<open>atStart\<close> is \<^verbatim>\<open>null\<close>.\<close>

record Pos =
  rIdx :: nat
  atStart :: "bool option"

function findRouteAndPos_from :: "R list \<Rightarrow> nat \<Rightarrow> Stop \<Rightarrow> Pos option" where
  "findRouteAndPos_from routes k stop =
     (if k < length routes then
        (let r = customers (routes ! k) in
         if length r = 0 then findRouteAndPos_from routes (k + 1) stop
         else if stop_id (r ! 0) = stop_id stop then Some \<lparr>rIdx = k, atStart = Some True\<rparr>
         else if stop_id (r ! (length r - 1)) = stop_id stop
           then Some \<lparr>rIdx = k, atStart = Some False\<rparr>
         else if list_ex (\<lambda>s. stop_id s = stop_id stop) r
           then Some \<lparr>rIdx = k, atStart = None\<rparr>
         else findRouteAndPos_from routes (k + 1) stop)
      else None)"
  by pat_completeness auto
termination
  by (relation "measure (\<lambda>(routes, k, stop). length routes - k)") auto

declare findRouteAndPos_from.simps [simp del]

definition findRouteAndPos :: "R list \<Rightarrow> Stop \<Rightarrow> Pos option" where
  "findRouteAndPos routes stop = findRouteAndPos_from routes 0 stop"

text \<open>\<^verbatim>\<open>routes.splice(k, 1)\<close>\<close>

definition splice1 :: "'a list \<Rightarrow> nat \<Rightarrow> 'a list" where
  "splice1 xs k = take k xs @ drop (Suc k) xs"

text \<open>One iteration of \<^verbatim>\<open>for (const { i, j } of savings)\<close>, returning the routes.\<close>

definition mergeStep :: "real \<Rightarrow> R list \<Rightarrow> Saving \<Rightarrow> R list" where
  "mergeStep capacity routes e =
     (case (findRouteAndPos routes (sav_i e), findRouteAndPos routes (sav_j e)) of
        (Some fi, Some fj) \<Rightarrow>
          if rIdx fi = rIdx fj then routes
          else (case (atStart fi, atStart fj) of
            (Some fiStart, Some fjStart) \<Rightarrow>
              (let ri = routes ! rIdx fi;
                   rj = routes ! rIdx fj;
                   newLoad = R.load ri + R.load rj
               in if newLoad > capacity then routes
                  else
                    (let left = (if fiStart then rev (customers ri) else customers ri);
                         right = (if \<not> fjStart then rev (customers rj) else customers rj);
                         merged = left @ right
                     in splice1 (routes[rIdx fi := \<lparr>customers = merged, load = newLoad\<rparr>])
                          (rIdx fj)))
          | _ \<Rightarrow> routes)
      | _ \<Rightarrow> routes)"

fun mergeLoop :: "real \<Rightarrow> R list \<Rightarrow> Saving list \<Rightarrow> R list" where
  "mergeLoop capacity routes [] = routes"
| "mergeLoop capacity routes (e # es) = mergeLoop capacity (mergeStep capacity routes e) es"

text \<open>\<^verbatim>\<open>customers.map((c) => ({ customers: [c], load: c.demand }))\<close>\<close>

definition initRoutes :: "Stop list \<Rightarrow> R list" where
  "initRoutes cs = map (\<lambda>c. \<lparr>customers = [c], load = demand c\<rparr>) cs"

text \<open>The working routes when the merge loop is over.\<close>

definition mergePhase :: "Depot \<Rightarrow> Stop list \<Rightarrow> real \<Rightarrow> R list" where
  "mergePhase depot cs capacity = mergeLoop capacity (initRoutes cs) (savings depot cs)"


subsection \<open>2-opt\<close>

text \<open>
  \<^verbatim>\<open>node\<close>: position \<open>-1\<close> and position \<open>length\<close> are the depot; any other index outside
  the array reads \<^verbatim>\<open>undefined\<close>, which is \<open>None\<close>.
\<close>

definition node :: "Depot \<Rightarrow> Stop list \<Rightarrow> int \<Rightarrow> LatLng option" where
  "node depot best idx =
     (if idx = - 1 then Some (LatLng.truncate depot)
      else if idx = int (length best) then Some (LatLng.truncate depot)
      else if 0 \<le> idx \<and> idx < int (length best) then Some (LatLng.truncate (best ! nat idx))
      else None)"

text \<open>
  \<^verbatim>\<open>haversineKm\<close> applied to values that may be \<^verbatim>\<open>undefined\<close>: reading \<^verbatim>\<open>.lat\<close> of
  \<^verbatim>\<open>undefined\<close> throws.
\<close>

definition haversineKmE :: "LatLng option \<Rightarrow> LatLng option \<Rightarrow> error + real" where
  "haversineKmE a b =
     (case (a, b) of
        (Some p, Some q) \<Rightarrow> Inr (haversineKm p q)
      | _ \<Rightarrow> Inl TypeError)"

text \<open>Addition of two results, the left one evaluated first.\<close>

definition addE :: "error + real \<Rightarrow> error + real \<Rightarrow> error + real" where
  "addE x y =
     (case x of
        Inl e \<Rightarrow> Inl e
      | Inr u \<Rightarrow> (case y of Inl e \<Rightarrow> Inl e | Inr v \<Rightarrow> Inr (u + v)))"

definition distWithDepot :: "Depot \<Rightarrow> Stop list \<Rightarrow> int \<Rightarrow> int \<Rightarrow> error + real" where
  "distWithDepot depot best a b =
     (let A = node depot best a;
          B = node depot best (a + 1);
          C = node depot best b;
          D = node depot best (b + 1)
      in addE (haversineKmE A B) (haversineKmE C D))"

text \<open>\<^verbatim>\<open>const before = distWithDepot(i - 1, i) + distWithDepot(k, k + 1)\<close>\<close>

definition twoOptBefore :: "Depot \<Rightarrow> Stop list \<Rightarrow> nat \<Rightarrow> nat \<Rightarrow> error + real" where
  "twoOptBefore depot best i k =
     addE (distWithDepot depot best (int i - 1) (int i))
          (distWithDepot depot best (int k) (int k + 1))"

text \<open>\<^verbatim>\<open>xs.slice(a, b)\<close> for \<open>a \<le> b\<close>.\<close>

definition slice :: "'a list \<Rightarrow> nat \<Rightarrow> nat \<Rightarrow> 'a list" where
  "slice xs a b = take (b - a) (drop a xs)"

text \<open>\<^verbatim>\<open>best.slice(0, i).concat(best.slice(i, k + 1).reverse(), best.slice(k + 1))\<close>\<close>

definition candidate :: "Stop list \<Rightarrow> nat \<Rightarrow> nat \<Rightarrow> Stop list" where
  "candidate best i k = slice best 0 i @ rev (slice best i (k + 1)) @ drop (k + 1) best"

text \<open>
  \<^verbatim>\<open>const after = haversineKm(node(i - 1), node(i)) + haversineKm(node(k), node(k + 1))\<close>
  with \<^verbatim>\<open>node\<close> reading the candidate.
\<close>

definition twoOptAfter :: "Depot \<Rightarrow> Stop list \<Rightarrow> nat \<Rightarrow> nat \<Rightarrow> error + real" where
  "twoOptAfter depot cand i k =
     addE (haversineKmE (node depot cand (int i - 1)) (node depot cand (int i)))
          (haversineKmE (node depot cand (int k)) (node depot cand (int k + 1)))"

text \<open>
  The body of the inner loop at \<open>(i, k)\<close>: the new \<open>best\<close>, and whether the candidate was
  accepted.
\<close>

definition twoOptCompare :: "Depot \<Rightarrow> Stop list \<Rightarrow> nat \<Rightarrow> nat \<Rightarrow> error + (Stop list \<times> bool)" where
  "twoOptCompare depot best i k =
     (case twoOptBefore depot best i k of
        Inl e \<Rightarrow> Inl e
      | Inr before \<Rightarrow>
          (case twoOptAfter depot (candidate best i k) i k of
             Inl e \<Rightarrow> Inl e
           | Inr after \<Rightarrow>
               if after + 1 / 10 ^ 9 < before then Inr (candidate best i k, True)
               else Inr (best, False)))"

lemma length_candidate: "i \<le> k \<Longrightarrow> length (candidate best i k) = length best"
  by (auto simp: candidate_def slice_def)

lemma twoOptCompare_length:
  "twoOptCompare depot best i k = Inr (best', acc) \<Longrightarrow> i \<le> k \<Longrightarrow> length best' = length best"
  by (auto simp: twoOptCompare_def length_candidate split: sum.splits if_splits)

text \<open>\<^verbatim>\<open>for (let k = ...; k < best.length; k++)\<close>, on the state \<open>(best, improved)\<close>.\<close>

function twoOpt_kloop ::
  "Depot \<Rightarrow> nat \<Rightarrow> nat \<Rightarrow> Stop list \<times> bool \<Rightarrow> error + (Stop list \<times> bool)" where
  "twoOpt_kloop depot i k (best, improved) =
     (if k < length best then
        (case twoOptCompare depot best i k of
           Inl e \<Rightarrow> Inl e
         | Inr (best', accepted) \<Rightarrow> twoOpt_kloop depot i (k + 1) (best', improved \<or> accepted))
      else Inr (best, improved))"
  by pat_completeness auto
termination
proof (relation "measures [\<lambda>(depot, i, k, st). i - k, \<lambda>(depot, i, k, st). length (fst st) - k]",
    goal_cases)
  case 1
  show ?case by simp
next
  case (2 depot i k best improved p best' accepted)
  show ?case
  proof (cases "i \<le> k")
    case True
    with 2 twoOptCompare_length [of depot best i k best' accepted] show ?thesis by simp
  next
    case False
    then show ?thesis by auto
  qed
qed

declare twoOpt_kloop.simps [simp del]

lemma twoOpt_kloop_length:
  "twoOpt_kloop depot i k st = Inr st' \<Longrightarrow> i \<le> k \<Longrightarrow> length (fst st') = length (fst st)"
proof (induction depot i k st rule: twoOpt_kloop.induct)
  case (1 depot i k best improved)
  show ?case
  proof (cases "k < length best")
    case False
    with "1.prems" show ?thesis by (simp add: twoOpt_kloop.simps)
  next
    case True
    show ?thesis
    proof (cases "twoOptCompare depot best i k")
      case (Inl e)
      with True "1.prems" show ?thesis by (simp add: twoOpt_kloop.simps)
    next
      case (Inr p)
      obtain best' accepted where p: "p = (best', accepted)" by (cases p)
      from True Inr p "1.prems"
      have "twoOpt_kloop depot i (k + 1) (best', improved \<or> accepted) = Inr st'"
        by (simp add: twoOpt_kloop.simps)
      from "1.IH" [OF True Inr [unfolded p] refl this] "1.prems"
      have "length (fst st') = length best'" by simp
      with twoOptCompare_length [OF Inr [unfolded p]] "1.prems" show ?thesis by simp
    qed
  qed
qed

text \<open>\<^verbatim>\<open>for (let i = 0; i < best.length - 1; i++)\<close>\<close>

function twoOpt_iloop ::
  "Depot \<Rightarrow> nat \<Rightarrow> Stop list \<times> bool \<Rightarrow> error + (Stop list \<times> bool)" where
  "twoOpt_iloop depot i (best, improved) =
     (if int i < int (length best) - 1 then
        (case twoOpt_kloop depot i (i + 1) (best, improved) of
           Inl e \<Rightarrow> Inl e
         | Inr st \<Rightarrow> twoOpt_iloop depot (i + 1) st)
      else Inr (best, improved))"
  by pat_completeness auto
termination
proof (relation "measure (\<lambda>(depot, i, st). length (fst st) - i)", goal_cases)
  case 1
  show ?case by simp
next
  case (2 depot i best improved st)
  from twoOpt_kloop_length [OF 2(2)] 2(1) show ?case by simp
qed

declare twoOpt_iloop.simps [simp del]

text \<open>
  \<^verbatim>\<open>while (improved) { improved = false; ... }\<close>, entered with \<^verbatim>\<open>improved = true\<close>:
  a pass, then another when the pass accepted a candidate.  \<open>None\<close> is a loop that
  never ends.
\<close>

partial_function (option) twoOpt_while :: "Depot \<Rightarrow> Stop list \<Rightarrow> (error + Stop list) option" where
  "twoOpt_while depot best =
     (case twoOpt_iloop depot 0 (best, False) of
        Inl e \<Rightarrow> Some (Inl e)
      | Inr (best', improved) \<Rightarrow>
          if improved then twoOpt_while depot best' else Some (Inr best'))"

definition twoOpt :: "Depot \<Rightarrow> Stop list \<Rightarrow> (error + Stop list) option" where
  "twoOpt depot seq = (if length seq < 4 then Some (Inr seq) else twoOpt_while depot seq)"

subsection \<open>Results\<close>

text \<open>
  \<^verbatim>\<open>for (const c of improved) { dist += haversineKm(prev, c); prev = c; }\<close> on the state
  \<open>(dst, prev)\<close>, \<open>dst\<close> for \<^verbatim>\<open>dist\<close>.
\<close>

fun distLoop :: "real \<Rightarrow> LatLng \<Rightarrow> Stop list \<Rightarrow> real \<times> LatLng" where
  "distLoop dst prev [] = (dst, prev)"
| "distLoop dst prev (c # cs) = distLoop (dst + haversineKm prev c) (LatLng.truncate c) cs"

definition roundTripKm :: "Depot \<Rightarrow> Stop list \<Rightarrow> real" where
  "roundTripKm depot improved =
     (case distLoop 0 (LatLng.truncate depot) improved of
        (dst, prev) \<Rightarrow> dst + haversineKm prev depot)"

text \<open>\<^verbatim>\<open>routes.map((r) => ...)\<close>: the first exception ends the map.\<close>

fun routeResults :: "Depot \<Rightarrow> R list \<Rightarrow> (error + RouteResult list) option" where
  "routeResults depot [] = Some (Inr [])"
| "routeResults depot (r # rs) =
     (case twoOpt depot (customers r) of
        None \<Rightarrow> None
      | Some (Inl e) \<Rightarrow> Some (Inl e)
      | Some (Inr improved) \<Rightarrow>
          (case routeResults depot rs of
             None \<Rightarrow> None
           | Some (Inl e) \<Rightarrow> Some (Inl e)
           | Some (Inr out) \<Rightarrow>
               Some (Inr (\<lparr>route = improved, distanceKm = roundTripKm depot improved,
                            load = R.load r\<rparr> # out))))"

text \<open>
  \<^verbatim>\<open>clarkeWright\<close>: \<open>None\<close> when the call does not return, \<open>Some (Inl e)\<close> when it throws,
  \<open>Some (Inr results)\<close> when it returns; the last line sorts the results by ascending
  distance (a stable sort).
\<close>

definition clarkeWright :: "Depot \<Rightarrow> Stop list \<Rightarrow> real \<Rightarrow> (error + RouteResult list) option" where
  "clarkeWright depot cs capacity =
     (if length cs = 0 then Some (Inr [])
      else (case routeResults depot (mergePhase depot cs capacity) of
              None \<Rightarrow> None
            | Some (Inl e) \<Rightarrow> Some (Inl e)
            | Some (Inr results) \<Rightarrow> Some (Inr (sort_key distanceKm results))))"


text \<open>The result of a working route that 2-opt leaves as it is.\<close>

definition resultOf :: "Depot \<Rightarrow> R \<Rightarrow> RouteResult" where
  "resultOf depot r =
     \<lparr>route = customers r, distanceKm = roundTripKm depot (customers r), load = R.load r\<rparr>"

subsection \<open>CSV export\<close>

text \<open>The characters the CSV helpers look at.\<close>

definition LF :: char where "LF = CHR 0x0A"
definition CR :: char where "CR = CHR 0x0D"
definition TAB :: char where "TAB = CHR 0x09"
definition DQUOTE :: char where "DQUOTE = CHR 0x22"
definition COMMA :: char where "COMMA = CHR 0x2C"

text \<open>A value of a row object: here a string or a number.\<close>

datatype cell = CStr string | CNum real

text \<open>\<^verbatim>\<open>type ColumnSpec<T> = { key: keyof T; title?: string }\<close>\<close>

record ColumnSpec =
  key :: string
  title :: "string option"

text \<open>\<^verbatim>\<open>xs.join(sep)\<close>\<close>

fun joinWith :: "string \<Rightarrow> string list \<Rightarrow> string" where
  "joinWith sep [] = []"
| "joinWith sep [x] = x"
| "joinWith sep (x # y # ys) = x @ sep @ joinWith sep (y # ys)"

text \<open>
  \<^verbatim>\<open>String(v ?? "")\<close>; the conversion \<open>numberToString\<close> of a number to a string is
  the runtime's and is a parameter.
\<close>

definition cellString :: "(real \<Rightarrow> string) \<Rightarrow> cell option \<Rightarrow> string" where
  "cellString numberToString v =
     (case v of None \<Rightarrow> [] | Some (CStr s) \<Rightarrow> s | Some (CNum x) \<Rightarrow> numberToString x)"

text \<open>\<^verbatim>\<open>.replace(/"/g, '""')\<close>\<close>

definition doubleQuotes :: "string \<Rightarrow> string" where
  "doubleQuotes s = concat (map (\<lambda>c. if c = DQUOTE then [DQUOTE, DQUOTE] else [c]) s)"

definition esc :: "(real \<Rightarrow> string) \<Rightarrow> cell option \<Rightarrow> string" where
  "esc numberToString v = [DQUOTE] @ doubleQuotes (cellString numberToString v) @ [DQUOTE]"

text \<open>
  \<^verbatim>\<open>toCSV\<close>: a row object is the list of its keys and values, in the order of its keys;
  no \<open>columns\<close> is the empty list.
\<close>

definition toCSV :: "(real \<Rightarrow> string) \<Rightarrow> (string \<times> cell) list list \<Rightarrow> ColumnSpec list \<Rightarrow> string" where
  "toCSV numberToString rows columns =
     (let cols = (if columns \<noteq> [] then columns
                  else map (\<lambda>k. \<lparr>key = k, title = None\<rparr>)
                         (map fst (case rows of [] \<Rightarrow> [] | r # _ \<Rightarrow> r)));
          header = joinWith [COMMA] (map (\<lambda>c. case title c of Some t \<Rightarrow> t | None \<Rightarrow> key c) cols);
          body = joinWith [LF]
                   (map (\<lambda>r. joinWith [COMMA] (map (\<lambda>c. esc numberToString (map_of r (key c))) cols))
                      rows)
      in joinWith [LF] (filter (\<lambda>s. s \<noteq> []) [header, body]))"

text \<open>\<^verbatim>\<open>exportCSV\<close>: the text handed to \<^verbatim>\<open>download\<close>.\<close>

definition exportCSV :: "(real \<Rightarrow> string) \<Rightarrow> Stop list \<Rightarrow> string" where
  "exportCSV numberToString stops =
     (let cols = [\<lparr>key = ''id'', title = Some ''ID''\<rparr>, \<lparr>key = ''name'', title = Some ''Name''\<rparr>,
                  \<lparr>key = ''lat'', title = Some ''Lat''\<rparr>, \<lparr>key = ''lng'', title = Some ''Lng''\<rparr>,
                  \<lparr>key = ''demand'', title = Some ''Demand''\<rparr>];
          data = map (\<lambda>s. [(''id'', CStr (stop_id s)), (''name'', CStr (name s)),
                             (''lat'', CNum (lat s)), (''lng'', CNum (lng s)),
                             (''demand'', CNum (demand s))]) stops
      in toCSV numberToString data cols)"

subsection \<open>CSV import\<close>

text \<open>A JavaScript number that may be NaN or infinite.\<close>

datatype jsnum = Finite real | NaN | PosInfinity | NegInfinity

definition isFinite :: "jsnum \<Rightarrow> bool" where
  "isFinite x = (case x of Finite _ \<Rightarrow> True | _ \<Rightarrow> False)"

text \<open>A stop as \<^verbatim>\<open>importCSV\<close> builds it: its numbers are whatever the parsers give.\<close>

record ImportedStop =
  imp_id :: string
  imp_name :: string
  imp_lat :: jsnum
  imp_lng :: jsnum
  imp_demand :: jsnum

text \<open>\<^verbatim>\<open>text.split(/\r?\n/)\<close>\<close>

fun splitLines :: "string \<Rightarrow> string list" where
  "splitLines [] = [[]]"
| "splitLines [c] = (if c = LF then [[], []] else [[c]])"
| "splitLines (c # d # cs) =
     (if c = LF then [] # splitLines (d # cs)
      else if c = CR \<and> d = LF then [] # splitLines cs
      else (case splitLines (d # cs) of [] \<Rightarrow> [[c]] | l # ls \<Rightarrow> (c # l) # ls))"

text \<open>\<^verbatim>\<open>line.split(/,|\t/)\<close>\<close>

fun splitFields :: "string \<Rightarrow> string list" where
  "splitFields [] = [[]]"
| "splitFields (c # cs) =
     (if c = COMMA \<or> c = TAB then [] # splitFields cs
      else (case splitFields cs of [] \<Rightarrow> [[c]] | l # ls \<Rightarrow> (c # l) # ls))"

text \<open>
  White space of \<^verbatim>\<open>trim\<close> and of the number parsers, among the characters of a byte
  string: the white space beyond the ASCII range (the no-break space, the byte order mark,
  the line and paragraph separators, the space separators of Unicode) is left out.
\<close>

definition isWhite :: "char \<Rightarrow> bool" where
  "isWhite c = (c = TAB \<or> c = LF \<or> c = CHR 0x0B \<or> c = CHR 0x0C \<or> c = CR \<or> c = CHR 0x20)"

definition trim :: "string \<Rightarrow> string" where
  "trim s = rev (dropWhile isWhite (rev (dropWhile isWhite s)))"

definition toLowerCase :: "string \<Rightarrow> string" where
  "toLowerCase s =
     map (\<lambda>c. if 65 \<le> (of_char c :: nat) \<and> (of_char c :: nat) \<le> 90
               then char_of ((of_char c :: nat) + 32) else c) s"

text \<open>\<^verbatim>\<open>cols.findIndex(...)\<close>: \<open>-1\<close> when there is none.\<close>

fun findIndex :: "('a \<Rightarrow> bool) \<Rightarrow> 'a list \<Rightarrow> int" where
  "findIndex P [] = - 1"
| "findIndex P (x # xs) =
     (if P x then 0 else (let r = findIndex P xs in if r < 0 then - 1 else r + 1))"

text \<open>\<^verbatim>\<open>parts[k]\<close>: \<^verbatim>\<open>undefined\<close> outside the array.\<close>

definition elemAt :: "'a list \<Rightarrow> int \<Rightarrow> 'a option" where
  "elemAt xs k = (if 0 \<le> k \<and> k < int (length xs) then Some (xs ! nat k) else None)"

text \<open>\<^verbatim>\<open>String.fromCharCode(n)\<close>, for a code below 256.\<close>

definition fromCharCode :: "nat \<Rightarrow> string" where
  "fromCharCode n = [char_of n]"

text \<open>The decimal digits of a natural number, as the template string prints \<^verbatim>\<open>i + 1\<close>.\<close>

function natToString :: "nat \<Rightarrow> string" where
  "natToString n =
     (if n < 10 then [char_of (48 + n)] else natToString (n div 10) @ [char_of (48 + n mod 10)])"
  by pat_completeness auto
termination
  by (relation "measure id") auto

declare natToString.simps [simp del]

text \<open>\<^verbatim>\<open>a || b\<close> on a string that may be \<^verbatim>\<open>undefined\<close>: the empty string is falsy.\<close>

definition strOr :: "string option \<Rightarrow> string \<Rightarrow> string" where
  "strOr a b = (case a of None \<Rightarrow> b | Some s \<Rightarrow> if s = [] then b else s)"

definition isDigit :: "char \<Rightarrow> bool" where
  "isDigit c = (48 \<le> (of_char c :: nat) \<and> (of_char c :: nat) \<le> 57)"

definition digitsValue :: "string \<Rightarrow> nat" where
  "digitsValue ds = foldl (\<lambda>a c. 10 * a + ((of_char c :: nat) - 48)) 0 ds"

text \<open>An optional sign: whether it is a minus, and the rest.\<close>

definition parseSign :: "string \<Rightarrow> bool \<times> string" where
  "parseSign t =
     (case t of
        [] \<Rightarrow> (False, t)
      | c # r \<Rightarrow> if c = CHR ''-'' then (True, r) else if c = CHR ''+'' then (False, r)
                 else (False, t))"

text \<open>An optional exponent part: its value (0 when there is none) and the rest.\<close>

definition parseExponent :: "string \<Rightarrow> int \<times> string" where
  "parseExponent t =
     (case t of
        [] \<Rightarrow> (0, t)
      | c # r \<Rightarrow>
          if c = CHR ''e'' \<or> c = CHR ''E'' then
            (case parseSign r of
               (neg, r1) \<Rightarrow>
                 (let es = takeWhile isDigit r1 in
                  if es = [] then (0, t)
                  else ((if neg then - int (digitsValue es) else int (digitsValue es)),
                        dropWhile isDigit r1)))
          else (0, t))"

text \<open>
  The longest prefix that is a \<open>StrDecimalLiteral\<close> of ECMAScript (a signed \<open>Infinity\<close>, or
  digits with an optional fraction and exponent): its value, not rounded, and the rest of
  the string; \<open>None\<close> when no prefix is one.  The code rounds the value to a double, so
  that a literal beyond the range of doubles is \<^verbatim>\<open>Infinity\<close> there and \<open>Finite\<close> here.
\<close>

definition parseDecimal :: "string \<Rightarrow> (jsnum \<times> string) option" where
  "parseDecimal t =
     (case parseSign t of
        (neg, t1) \<Rightarrow>
          if take 8 t1 = ''Infinity'' then Some (if neg then NegInfinity else PosInfinity, drop 8 t1)
          else
            (let ds1 = takeWhile isDigit t1;
                 t2 = dropWhile isDigit t1;
                 frac = (case t2 of
                           [] \<Rightarrow> ([], t2)
                         | c # r \<Rightarrow> if c = CHR ''.'' then (takeWhile isDigit r, dropWhile isDigit r)
                                    else ([], t2))
             in case frac of
                  (ds2, t3) \<Rightarrow>
                    if ds1 = [] \<and> ds2 = [] then None
                    else
                      (case parseExponent t3 of
                         (ex, t4) \<Rightarrow>
                           (let m = real (digitsValue ds1)
                                    + real (digitsValue ds2) / 10 ^ length ds2;
                                v = (if 0 \<le> ex then m * 10 ^ nat ex else m / 10 ^ nat (- ex))
                            in Some (Finite (if neg then - v else v), t4)))))"

text \<open>\<^verbatim>\<open>parseFloat(v)\<close>; \<^verbatim>\<open>undefined\<close> is first made the string \<^verbatim>\<open>"undefined"\<close>.\<close>

definition parseFloat :: "string option \<Rightarrow> jsnum" where
  "parseFloat v =
     (case parseDecimal (dropWhile isWhite (case v of None \<Rightarrow> ''undefined'' | Some s \<Rightarrow> s)) of
        None \<Rightarrow> NaN
      | Some (x, rest) \<Rightarrow> x)"

text \<open>A literal \<^verbatim>\<open>0x\<close>, \<^verbatim>\<open>0o\<close> or \<^verbatim>\<open>0b\<close> with digits of its base, as \<^verbatim>\<open>Number\<close> reads it.\<close>

definition digitOfBase :: "nat \<Rightarrow> char \<Rightarrow> nat option" where
  "digitOfBase b c =
     (let n = (of_char c :: nat);
          d = (if 48 \<le> n \<and> n \<le> 57 then Some (n - 48)
               else if 97 \<le> n \<and> n \<le> 102 then Some (n - 87)
               else if 65 \<le> n \<and> n \<le> 70 then Some (n - 55)
               else None)
      in case d of None \<Rightarrow> None | Some k \<Rightarrow> if k < b then Some k else None)"

definition parseRadix :: "string \<Rightarrow> jsnum option" where
  "parseRadix t =
     (case t of
        z # p # r \<Rightarrow>
          (let b = (if p = CHR ''x'' \<or> p = CHR ''X'' then 16
                    else if p = CHR ''o'' \<or> p = CHR ''O'' then 8
                    else if p = CHR ''b'' \<or> p = CHR ''B'' then 2 else (0 :: nat))
           in if z = CHR ''0'' \<and> b \<noteq> 0 \<and> r \<noteq> [] \<and> list_all (\<lambda>c. digitOfBase b c \<noteq> None) r
              then Some (Finite (real (foldl (\<lambda>a c. b * a + the (digitOfBase b c)) 0 r)))
              else None)
      | _ \<Rightarrow> None)"

text \<open>\<^verbatim>\<open>Number(v)\<close> on a string that may be \<^verbatim>\<open>undefined\<close>.\<close>

definition toNumber :: "string option \<Rightarrow> jsnum" where
  "toNumber v =
     (case v of
        None \<Rightarrow> NaN
      | Some s \<Rightarrow>
          (let t = trim s in
           if t = [] then Finite 0
           else (case parseRadix t of
                   Some x \<Rightarrow> x
                 | None \<Rightarrow>
                     (case parseDecimal t of
                        Some (x, rest) \<Rightarrow> if rest = [] then x else NaN
                      | None \<Rightarrow> NaN))))"

text \<open>
  \<^verbatim>\<open>importCSV\<close>: the list handed to \<^verbatim>\<open>setStops\<close>; with no line at all \<^verbatim>\<open>header\<close> is
  \<^verbatim>\<open>undefined\<close> and \<^verbatim>\<open>header.split\<close> throws.
\<close>

definition importCSV :: "string \<Rightarrow> error + ImportedStop list" where
  "importCSV text =
     (case filter (\<lambda>l. l \<noteq> []) (splitLines text) of
        [] \<Rightarrow> Inl TypeError
      | header # rest \<Rightarrow>
          (let cols = map (\<lambda>h. toLowerCase (trim h)) (splitFields header);
               idx = (\<lambda>k. findIndex (\<lambda>c. c = k) cols);
               idIdx = idx ''id'';
               nameIdx = idx ''name'';
               latIdx = idx ''lat'';
               lngIdx = idx ''lng'';
               demIdx = idx ''demand'';
               parsed = map (\<lambda>(i, line).
                   (let parts = splitFields line;
                        id = (if 0 \<le> idIdx then elemAt parts idIdx else Some (fromCharCode (65 + i)))
                    in \<lparr>imp_id = strOr id (fromCharCode (65 + i)),
                        imp_name = strOr (elemAt parts nameIdx) (''Stop '' @ strOr id (natToString (i + 1))),
                        imp_lat = parseFloat (elemAt parts latIdx),
                        imp_lng = parseFloat (elemAt parts lngIdx),
                        imp_demand = (if 0 \<le> demIdx then toNumber (elemAt parts demIdx) else Finite 1)\<rparr>))
                 (enumerate 0 rest)
           in Inr (filter (\<lambda>s. isFinite (imp_lat s) \<and> isFinite (imp_lng s)) parsed)))"

subsection \<open>The exported text, line by line\<close>

text \<open>The text of one exported row.\<close>

definition rowText :: "(real \<Rightarrow> string) \<Rightarrow> Stop \<Rightarrow> string" where
  "rowText numberToString s =
     esc numberToString (Some (CStr (stop_id s))) @ [COMMA]
     @ esc numberToString (Some (CStr (name s))) @ [COMMA]
     @ esc numberToString (Some (CNum (lat s))) @ [COMMA]
     @ esc numberToString (Some (CNum (lng s))) @ [COMMA]
     @ esc numberToString (Some (CNum (demand s)))"

text \<open>The header line of the stops export.\<close>

definition headerText :: string where
  "headerText = ''ID,Name,Lat,Lng,Demand''"

text \<open>The fields of a stop have no line feed, comma or tab.\<close>

definition cleanFields :: "(real \<Rightarrow> string) \<Rightarrow> Stop \<Rightarrow> bool" where
  "cleanFields numberToString s =
     list_all (\<lambda>f. LF \<notin> set f \<and> COMMA \<notin> set f \<and> TAB \<notin> set f)
       [stop_id s, name s, numberToString (lat s), numberToString (lng s),
        numberToString (demand s)]"

subsection \<open>Inputs used below\<close>

text \<open>The input of the self-test \<^verbatim>\<open>runSelfTests\<close>: the depot \<^verbatim>\<open>d\<close> and the stops \<^verbatim>\<open>picks\<close>.\<close>

definition selftest_depot :: Depot where
  "selftest_depot = \<lparr>lat = 0, lng = 0, name = ''D''\<rparr>"

definition pick1 :: Stop where
  "pick1 = \<lparr>lat = 0, lng = 1 / 10, name = ''1'', stop_id = ''1'', demand = 2\<rparr>"

definition pick2 :: Stop where
  "pick2 = \<lparr>lat = 0, lng = 2 / 10, name = ''2'', stop_id = ''2'', demand = 2\<rparr>"

definition pick3 :: Stop where
  "pick3 = \<lparr>lat = 0, lng = 3 / 10, name = ''3'', stop_id = ''3'', demand = 2\<rparr>"

text \<open>
  A depot and four stops on the equator, at the longitudes 0 and 1, 2, 3, 10, each stop
  with demand 1.
\<close>

definition line_depot :: Depot where
  "line_depot = \<lparr>lat = 0, lng = 0, name = ''Factory''\<rparr>"

definition stopA :: Stop where
  "stopA = \<lparr>lat = 0, lng = 1, name = ''Raw Spot A'', stop_id = ''A'', demand = 1\<rparr>"

definition stopB :: Stop where
  "stopB = \<lparr>lat = 0, lng = 2, name = ''Raw Spot B'', stop_id = ''B'', demand = 1\<rparr>"

definition stopC :: Stop where
  "stopC = \<lparr>lat = 0, lng = 3, name = ''Raw Spot C'', stop_id = ''C'', demand = 1\<rparr>"

definition stopD :: Stop where
  "stopD = \<lparr>lat = 0, lng = 10, name = ''Raw Spot D'', stop_id = ''D'', demand = 1\<rparr>"

text \<open>The rows of the self-test of \<^verbatim>\<open>toCSV\<close>, as stops.\<close>

definition sampleA :: Stop where
  "sampleA = \<lparr>lat = 1, lng = 2, name = ''A'', stop_id = ''A'', demand = 3\<rparr>"

definition sampleB :: Stop where
  "sampleB = \<lparr>lat = 4, lng = 5, name = ''B'', stop_id = ''B'', demand = 6\<rparr>"

text \<open>
  The decimal digits of a number that is a natural number: what \<^verbatim>\<open>String\<close> gives for
  the numbers of the sample rows.
\<close>

definition naturalToString :: "real \<Rightarrow> string" where
  "naturalToString x = natToString (nat \<lfloor>x\<rfloor>)"

text \<open>Kilometres per degree of longitude on the equator.\<close>

definition kmPerDeg :: real where
  "kmPerDeg = 6371 * pi / 180"

subsection \<open>Numbers as doubles\<close>

text \<open>
  A number of the program is a double: every arithmetic operation returns the double
  nearest to the exact result, a tie going to the even significand.  \<open>round64\<close> is that
  rounding for the values of the normal range (a significand of 53 bits; subnormal
  numbers and the overflow to \<^verbatim>\<open>Infinity\<close> are left out, the values below are far from
  both).  \<open>scaleToUnit\<close> brings a positive value into \<open>[1, 2)\<close> and counts the exponent.
\<close>

fun scaleToUnit :: "nat \<Rightarrow> real \<Rightarrow> int \<Rightarrow> real \<times> int" where
  "scaleToUnit 0 x e = (x, e)"
| "scaleToUnit (Suc n) x e =
     (if 2 \<le> x then scaleToUnit n (x / 2) (e + 1)
      else if x < 1 then scaleToUnit n (x * 2) (e - 1)
      else (x, e))"

definition roundHalfEven :: "real \<Rightarrow> int" where
  "roundHalfEven q =
     (let n = \<lfloor>q\<rfloor>; r = q - of_int n
      in if r < 1 / 2 then n else if 1 / 2 < r then n + 1 else if even n then n else n + 1)"

definition pow2 :: "int \<Rightarrow> real" where
  "pow2 k = (if 0 \<le> k then 2 ^ nat k else 1 / 2 ^ nat (- k))"

definition round64 :: "real \<Rightarrow> real" where
  "round64 x =
     (if x = 0 then 0
      else (case scaleToUnit 1100 \<bar>x\<bar> 0 of
              (m, e) \<Rightarrow>
                (let y = of_int (roundHalfEven (m * 2 ^ 52)) * pow2 (e - 52)
                 in if x < 0 then - y else y)))"


subsection \<open>The route merger, with the addition as a parameter\<close>

text \<open>
  The body of the merge loop, the loop and the solver once more, with the addition of
  \<^verbatim>\<open>ri.load + rj.load\<close> as a parameter: with \<open>(+)\<close> they are \<open>mergeStep\<close>, \<open>mergeLoop\<close>,
  \<open>mergePhase\<close> and \<open>clarkeWright\<close>, with \<open>jsAdd\<close> the loads are added as doubles.
\<close>

definition mergeStepWith :: "(real \<Rightarrow> real \<Rightarrow> real) \<Rightarrow> real \<Rightarrow> R list \<Rightarrow> Saving \<Rightarrow> R list" where
  "mergeStepWith add capacity routes e =
     (case (findRouteAndPos routes (sav_i e), findRouteAndPos routes (sav_j e)) of
        (Some fi, Some fj) \<Rightarrow>
          if rIdx fi = rIdx fj then routes
          else (case (atStart fi, atStart fj) of
            (Some fiStart, Some fjStart) \<Rightarrow>
              (let ri = routes ! rIdx fi;
                   rj = routes ! rIdx fj;
                   newLoad = add (R.load ri) (R.load rj)
               in if newLoad > capacity then routes
                  else
                    (let left = (if fiStart then rev (customers ri) else customers ri);
                         right = (if \<not> fjStart then rev (customers rj) else customers rj);
                         merged = left @ right
                     in splice1 (routes[rIdx fi := \<lparr>customers = merged, load = newLoad\<rparr>])
                          (rIdx fj)))
          | _ \<Rightarrow> routes)
      | _ \<Rightarrow> routes)"

fun mergeLoopWith :: "(real \<Rightarrow> real \<Rightarrow> real) \<Rightarrow> real \<Rightarrow> R list \<Rightarrow> Saving list \<Rightarrow> R list" where
  "mergeLoopWith add capacity routes [] = routes"
| "mergeLoopWith add capacity routes (e # es) =
     mergeLoopWith add capacity (mergeStepWith add capacity routes e) es"

definition mergePhaseWith :: "(real \<Rightarrow> real \<Rightarrow> real) \<Rightarrow> Depot \<Rightarrow> Stop list \<Rightarrow> real \<Rightarrow> R list" where
  "mergePhaseWith add depot cs capacity =
     mergeLoopWith add capacity (initRoutes cs) (savings depot cs)"

definition clarkeWrightWith ::
  "(real \<Rightarrow> real \<Rightarrow> real) \<Rightarrow> Depot \<Rightarrow> Stop list \<Rightarrow> real \<Rightarrow> (error + RouteResult list) option" where
  "clarkeWrightWith add depot cs capacity =
     (if length cs = 0 then Some (Inr [])
      else (case routeResults depot (mergePhaseWith add depot cs capacity) of
              None \<Rightarrow> None
            | Some (Inl e) \<Rightarrow> Some (Inl e)
            | Some (Inr results) \<Rightarrow> Some (Inr (sort_key distanceKm results))))"




subsection \<open>The distance, with the arithmetic as a parameter\<close>

text \<open>
  The operations \<^verbatim>\<open>haversineKm\<close> uses, and \<^verbatim>\<open>haversineKm\<close> written with them, operation by
  operation as in the source.  \<open>exactOps\<close> are the operations of the real numbers;
  \<open>doubleOps\<close> return the double nearest to the exact result (which the standard requires
  of \<^verbatim>\<open>+\<close>, \<^verbatim>\<open>-\<close>, \<^verbatim>\<open>*\<close>, \<^verbatim>\<open>/\<close> and \<^verbatim>\<open>Math.sqrt\<close>; \<^verbatim>\<open>Math.sin\<close>, \<^verbatim>\<open>Math.cos\<close> and \<^verbatim>\<open>Math.asin\<close> are
  taken at their best).
\<close>

record NumOps =
  fadd :: "real \<Rightarrow> real \<Rightarrow> real"
  fsub :: "real \<Rightarrow> real \<Rightarrow> real"
  fmul :: "real \<Rightarrow> real \<Rightarrow> real"
  fdiv :: "real \<Rightarrow> real \<Rightarrow> real"
  fsin :: "real \<Rightarrow> real"
  fcos :: "real \<Rightarrow> real"
  fsqrt :: "real \<Rightarrow> real"
  fasin :: "real \<Rightarrow> real"
  fpi :: real

definition toRadWith :: "NumOps \<Rightarrow> real \<Rightarrow> real" where
  "toRadWith ops deg = fdiv ops (fmul ops deg (fpi ops)) 180"

definition haversineHWith :: "NumOps \<Rightarrow> 'a LatLng_scheme \<Rightarrow> 'b LatLng_scheme \<Rightarrow> real" where
  "haversineHWith ops a b =
    (let dLat = toRadWith ops (fsub ops (lat b) (lat a));
         dLon = toRadWith ops (fsub ops (lng b) (lng a));
         lat1 = toRadWith ops (lat a);
         lat2 = toRadWith ops (lat b);
         sinDLat = fsin ops (fdiv ops dLat 2);
         sinDLon = fsin ops (fdiv ops dLon 2)
     in fadd ops (fmul ops sinDLat sinDLat)
          (fmul ops (fmul ops (fmul ops (fcos ops lat1) (fcos ops lat2)) sinDLon) sinDLon))"

definition asinArgWith :: "NumOps \<Rightarrow> 'a LatLng_scheme \<Rightarrow> 'b LatLng_scheme \<Rightarrow> real" where
  "asinArgWith ops a b = min 1 (fsqrt ops (haversineHWith ops a b))"

definition haversineKmWith :: "NumOps \<Rightarrow> 'a LatLng_scheme \<Rightarrow> 'b LatLng_scheme \<Rightarrow> real" where
  "haversineKmWith ops a b =
     (let R = 6371 in fmul ops (fmul ops 2 R) (fasin ops (asinArgWith ops a b)))"

definition exactOps :: NumOps where
  "exactOps = \<lparr>fadd = (+), fsub = (-), fmul = (*), fdiv = (/),
               fsin = sin, fcos = cos, fsqrt = sqrt, fasin = arcsin, fpi = pi\<rparr>"

definition doubleOps :: NumOps where
  "doubleOps = \<lparr>fadd = (\<lambda>x y. round64 (x + y)), fsub = (\<lambda>x y. round64 (x - y)),
                fmul = (\<lambda>x y. round64 (x * y)), fdiv = (\<lambda>x y. round64 (x / y)),
                fsin = (\<lambda>x. round64 (sin x)), fcos = (\<lambda>x. round64 (cos x)),
                fsqrt = (\<lambda>x. round64 (sqrt x)), fasin = (\<lambda>x. round64 (arcsin x)),
                fpi = round64 pi\<rparr>"

text \<open>
  Two laws of an arithmetic: its operations commute and follow a change of sign, as
  rounding to nearest does; and they are exact at zero.
\<close>

definition signSymmetric :: "NumOps \<Rightarrow> bool" where
  "signSymmetric ops =
     ((\<forall>x y. fsub ops x y = - fsub ops y x)
      \<and> (\<forall>x y. fmul ops x y = fmul ops y x)
      \<and> (\<forall>x y. fmul ops (- x) y = - fmul ops x y)
      \<and> (\<forall>x y. fdiv ops (- x) y = - fdiv ops x y)
      \<and> (\<forall>x. fsin ops (- x) = - fsin ops x))"

definition zeroExact :: "NumOps \<Rightarrow> bool" where
  "zeroExact ops =
     ((\<forall>x. fsub ops x x = 0)
      \<and> (\<forall>y. fmul ops 0 y = 0) \<and> (\<forall>x. fmul ops x 0 = 0)
      \<and> (\<forall>y. y \<noteq> 0 \<longrightarrow> fdiv ops 0 y = 0)
      \<and> fsin ops 0 = 0 \<and> fadd ops 0 0 = 0 \<and> fsqrt ops 0 = 0 \<and> fasin ops 0 = 0)"

subsection \<open>Plain objects as dictionaries\<close>

text \<open>
  \<^verbatim>\<open>d0\<close> and \<^verbatim>\<open>dij\<close> are plain objects \<^verbatim>\<open>{}\<close>.  On a plain object the key \<^verbatim>\<open>__proto__\<close> is not
  a property of its own: the assignment \<^verbatim>\<open>d0['__proto__'] = n\<close> of a number stores nothing,
  and reading \<^verbatim>\<open>d0['__proto__']\<close> gives the prototype object, not a number.  Every other key
  that has been assigned reads as the number assigned last.  \<open>objectGet\<close> is the number
  read, \<open>None\<close> when what is read is not a number.
\<close>

definition objectSet :: "(string \<rightharpoonup> real) \<Rightarrow> string \<Rightarrow> real \<Rightarrow> (string \<rightharpoonup> real)" where
  "objectSet m k v = (if k = ''__proto__'' then m else m(k \<mapsto> v))"

definition objectGet :: "(string \<rightharpoonup> real) \<Rightarrow> string \<Rightarrow> real option" where
  "objectGet m k = (if k = ''__proto__'' then None else m k)"

definition d0_object :: "Depot \<Rightarrow> Stop list \<Rightarrow> (string \<rightharpoonup> real)" where
  "d0_object depot cs = fold (\<lambda>c m. objectSet m (stop_id c) (haversineKm depot c)) cs Map.empty"

definition dij_object :: "Stop list \<Rightarrow> (string \<rightharpoonup> real)" where
  "dij_object cs =
     fold (\<lambda>(a, b) m. objectSet (objectSet m (idKey (stop_id b) (stop_id a)) (haversineKm a b))
                           (idKey (stop_id a) (stop_id b)) (haversineKm a b))
          (pairsInOrder cs) Map.empty"

text \<open>
  The values \<^verbatim>\<open>s\<close> of the savings in the order of the two loops:
  \<^verbatim>\<open>d0[a.id] + d0[b.id] - dij[id(a.id, b.id)]\<close> is \<^verbatim>\<open>NaN\<close> as soon as one of the three values
  read is not a number.
\<close>

definition savingValues :: "Depot \<Rightarrow> Stop list \<Rightarrow> jsnum list" where
  "savingValues depot cs =
     (let d0 = d0_object depot cs; dij = dij_object cs
      in map (\<lambda>(a, b).
                case (objectGet d0 (stop_id a), objectGet d0 (stop_id b),
                      objectGet dij (idKey (stop_id a) (stop_id b))) of
                  (Some x, Some y, Some z) \<Rightarrow> Finite (x + y - z)
                | _ \<Rightarrow> NaN)
             (pairsInOrder cs))"

text \<open>\<^verbatim>\<open>a >= b\<close> on numbers: false when either is \<^verbatim>\<open>NaN\<close>.\<close>

definition jsGreaterEq :: "jsnum \<Rightarrow> jsnum \<Rightarrow> bool" where
  "jsGreaterEq a b =
     (case (a, b) of
        (NaN, _) \<Rightarrow> False
      | (_, NaN) \<Rightarrow> False
      | (PosInfinity, _) \<Rightarrow> True
      | (_, NegInfinity) \<Rightarrow> True
      | (Finite x, Finite y) \<Rightarrow> y \<le> x
      | _ \<Rightarrow> False)"

subsection \<open>Further inputs\<close>

text \<open>The stops of the self-test with the demands 0.1, 0.2 and 0.3, as doubles.\<close>

definition frac1 :: Stop where
  "frac1 = \<lparr>lat = 0, lng = 1 / 10, name = ''1'', stop_id = ''1'', demand = round64 (1 / 10)\<rparr>"

definition frac2 :: Stop where
  "frac2 = \<lparr>lat = 0, lng = 2 / 10, name = ''2'', stop_id = ''2'', demand = round64 (2 / 10)\<rparr>"

definition frac3 :: Stop where
  "frac3 = \<lparr>lat = 0, lng = 3 / 10, name = ''3'', stop_id = ''3'', demand = round64 (3 / 10)\<rparr>"

text \<open>The first stop of the self-test under the id \<^verbatim>\<open>__proto__\<close>.\<close>

definition protoStop :: Stop where
  "protoStop = \<lparr>lat = 0, lng = 1 / 10, name = ''1'', stop_id = ''__proto__'', demand = 2\<rparr>"

subsection \<open>Distance: symmetry, zero, clamp\<close>

lemma toRad_minus: "toRad (x - y) = - toRad (y - x)"
  by (simp add: toRad_def field_simps)

lemma haversineH_sym: "haversineH a b = haversineH b a"
proof -
  have s: "sin (toRad (x - y) / 2) * sin (toRad (x - y) / 2)
         = sin (toRad (y - x) / 2) * sin (toRad (y - x) / 2)" for x y :: real
  proof -
    have "toRad (x - y) / 2 = - (toRad (y - x) / 2)"
      using toRad_minus [of x y] by simp
    then show ?thesis by simp
  qed
  have "cos (toRad (lat a)) * cos (toRad (lat b)) * sin (toRad (lng b - lng a) / 2)
          * sin (toRad (lng b - lng a) / 2)
      = cos (toRad (lat b)) * cos (toRad (lat a)) * sin (toRad (lng a - lng b) / 2)
          * sin (toRad (lng a - lng b) / 2)"
    using s [of "lng b" "lng a"] by (simp add: mult.assoc mult.left_commute)
  with s [of "lat b" "lat a"] show ?thesis
    by (simp add: haversineH_def Let_def)
qed

lemma haversineH_self: "haversineH a a = 0"
  by (simp add: haversineH_def toRad_def)

lemma half_sum_nonneg:
  fixes c s d :: real
  shows "- 1 \<le> c - s \<Longrightarrow> d = c + s \<Longrightarrow> 0 \<le> (1 - d) / 2 + c"
  by (simp add: field_simps)

lemma haversineH_nonneg: "0 \<le> haversineH a b"
proof -
  have "0 \<le> cos (toRad (lat a)) * cos (toRad (lat b))
             * (sin (toRad (lng b - lng a) / 2) * sin (toRad (lng b - lng a) / 2))
           + sin (toRad (lat b - lat a) / 2) * sin (toRad (lat b - lat a) / 2)"
    (is "0 \<le> ?c * ?s + ?t")
  proof -
    define x where "x = toRad (lat a)"
    define y where "y = toRad (lat b)"
    have half: "toRad (lat b - lat a) / 2 = (y - x) / 2"
      by (simp add: x_def y_def toRad_def algebra_simps diff_divide_distrib)
    have cc: "cos x * cos y = cos (y - x) - sin x * sin y"
      by (simp add: cos_diff algebra_simps)
    have dbl: "2 * ((y - x) / 2) = y - x" by simp
    have t: "?t = (1 - cos (y - x)) / 2"
      using cos_double_sin [of "(y - x) / 2", unfolded dbl]
      by (simp add: half power2_eq_square)
    have s01: "0 \<le> ?s" "?s \<le> 1"
      using abs_sin_le_one [of "toRad (lng b - lng a) / 2"]
      by (simp_all add: abs_le_square_iff [of _ 1, simplified] power2_eq_square [symmetric])
    have c1: "- 1 \<le> cos x * cos y - sin x * sin y"
      using cos_ge_minus_one [of "x + y"] by (simp add: cos_add)
    have cy: "cos (y - x) = cos x * cos y + sin x * sin y"
      by (simp add: cos_diff algebra_simps)
    show ?thesis
    proof (cases "0 \<le> cos x * cos y")
      case True
      then have "0 \<le> cos x * cos y * ?s" using s01 by simp
      moreover have "0 \<le> ?t" by simp
      ultimately show ?thesis unfolding x_def y_def by linarith
    next
      case False
      then have neg: "cos x * cos y < 0" by simp
      then have "cos x * cos y \<le> cos x * cos y * ?s"
        using s01 mult_left_mono_neg [of ?s 1 "cos x * cos y"] by simp
      moreover have "(1 - cos (y - x)) / 2 + cos x * cos y \<ge> 0"
        using c1 cy half_sum_nonneg by blast
      ultimately show ?thesis unfolding t x_def [symmetric] y_def [symmetric] by linarith
    qed
  qed
  then show ?thesis
    by (simp add: haversineH_def Let_def algebra_simps)
qed

lemma asinArg_sym: "asinArg a b = asinArg b a"
  by (simp add: asinArg_def haversineH_sym [of a b])

lemma asinArg_range: "0 \<le> asinArg a b" "asinArg a b \<le> 1"
  using haversineH_nonneg [of a b] by (simp_all add: asinArg_def)

lemma haversineKm_sym: "haversineKm a b = haversineKm b a"
  by (simp add: haversineKm_def asinArg_sym [of a b])

lemma haversineKm_self: "haversineKm a a = 0"
  by (simp add: haversineKm_def asinArg_def haversineH_self)

lemma haversineKm_nonneg: "0 \<le> haversineKm a b"
  using asinArg_range [of a b] arcsin_bounded [of "asinArg a b"]
  by (simp add: haversineKm_def arcsin_nonneg)

text \<open>The same with the arithmetic as a parameter.\<close>

lemma haversineKmWith_exact: "haversineKmWith exactOps a b = haversineKm a b"
  by (simp add: haversineKmWith_def asinArgWith_def haversineHWith_def toRadWith_def exactOps_def
      haversineKm_def asinArg_def haversineH_def toRad_def Let_def)

lemma round64_minus: "round64 (- x) = - round64 x"
  by (simp add: round64_def Let_def split: prod.splits)

lemma round64_zero [simp]: "round64 0 = 0"
  by (simp add: round64_def)

lemma signSymmetricD:
  assumes "signSymmetric ops"
  shows "fsub ops x y = - fsub ops y x" "fmul ops x y = fmul ops y x"
    "fmul ops (- x) y = - fmul ops x y" "fdiv ops (- x) y = - fdiv ops x y"
    "fsin ops (- x) = - fsin ops x"
  using assms unfolding signSymmetric_def by blast+

lemma zeroExactD:
  assumes "zeroExact ops"
  shows "fsub ops x x = 0" "fmul ops 0 y = 0" "fmul ops x 0 = 0" "y \<noteq> 0 \<Longrightarrow> fdiv ops 0 y = 0"
    "fsin ops 0 = 0" "fadd ops 0 0 = 0" "fsqrt ops 0 = 0" "fasin ops 0 = 0"
  using assms unfolding zeroExact_def by blast+

lemma doubleOps_laws: "signSymmetric doubleOps" "zeroExact doubleOps"
proof -
  have a: "round64 (x - y) = - round64 (y - x)" for x y
    using round64_minus [of "y - x"] by simp
  have b: "round64 (x * y) = round64 (y * x)" for x y by (simp add: mult.commute)
  have c: "round64 (- x * y) = - round64 (x * y)" for x y
    using round64_minus [of "x * y"] by simp
  have d: "round64 (- x / y) = - round64 (x / y)" for x y
    using round64_minus [of "x / y"] by simp
  have e: "round64 (sin (- x)) = - round64 (sin x)" for x
    using round64_minus [of "sin x"] by simp
  show "signSymmetric doubleOps"
    unfolding signSymmetric_def doubleOps_def NumOps.select_convs
    using a b c d e by (intro conjI allI)
  show "zeroExact doubleOps"
    unfolding zeroExact_def doubleOps_def NumOps.select_convs by simp
qed

lemma toRadWith_minus:
  assumes s: "signSymmetric ops"
  shows "toRadWith ops (fsub ops x y) = - toRadWith ops (fsub ops y x)"
proof -
  have "toRadWith ops (fsub ops x y) = fdiv ops (fmul ops (- fsub ops y x) (fpi ops)) 180"
    unfolding toRadWith_def by (simp only: signSymmetricD(1) [OF s, of x y])
  also have "\<dots> = fdiv ops (- fmul ops (fsub ops y x) (fpi ops)) 180"
    by (simp only: signSymmetricD(3) [OF s])
  also have "\<dots> = - fdiv ops (fmul ops (fsub ops y x) (fpi ops)) 180"
    by (simp only: signSymmetricD(4) [OF s])
  finally show ?thesis unfolding toRadWith_def .
qed

lemma half_sine_minus:
  assumes s: "signSymmetric ops"
  shows "fsin ops (fdiv ops (toRadWith ops (fsub ops x y)) 2)
       = - fsin ops (fdiv ops (toRadWith ops (fsub ops y x)) 2)"
  by (simp only: toRadWith_minus [OF s, of x y] signSymmetricD(4) [OF s] signSymmetricD(5) [OF s])

lemma haversineHWith_sym:
  assumes s: "signSymmetric ops"
  shows "haversineHWith ops a b = haversineHWith ops b a"
proof -
  have m: "fmul ops (- u) (- u) = fmul ops u u" for u
  proof -
    have "fmul ops (- u) (- u) = - fmul ops u (- u)" by (simp only: signSymmetricD(3) [OF s])
    also have "\<dots> = - fmul ops (- u) u" by (simp only: signSymmetricD(2) [OF s, of u "- u"])
    also have "\<dots> = fmul ops u u" by (simp only: signSymmetricD(3) [OF s] minus_minus)
    finally show ?thesis .
  qed
  have n: "fmul ops v (- u) = - fmul ops v u" for v u
  proof -
    have "fmul ops v (- u) = fmul ops (- u) v" by (simp only: signSymmetricD(2) [OF s, of v "- u"])
    also have "\<dots> = - fmul ops u v" by (simp only: signSymmetricD(3) [OF s])
    also have "\<dots> = - fmul ops v u" by (simp only: signSymmetricD(2) [OF s, of u v])
    finally show ?thesis .
  qed
  have c: "fmul ops (fmul ops (fmul ops p q) (- u)) (- u) = fmul ops (fmul ops (fmul ops q p) u) u"
    for p q u
  proof -
    have "fmul ops (fmul ops (fmul ops p q) (- u)) (- u)
        = fmul ops (- fmul ops (fmul ops p q) u) (- u)" by (simp only: n)
    also have "\<dots> = - fmul ops (fmul ops (fmul ops p q) u) (- u)"
      by (simp only: signSymmetricD(3) [OF s])
    also have "\<dots> = fmul ops (fmul ops (fmul ops p q) u) u" by (simp only: n minus_minus)
    also have "\<dots> = fmul ops (fmul ops (fmul ops q p) u) u"
      by (simp only: signSymmetricD(2) [OF s, of p q])
    finally show ?thesis .
  qed
  show ?thesis
    unfolding haversineHWith_def Let_def
      half_sine_minus [OF s, of "lat b" "lat a"] half_sine_minus [OF s, of "lng b" "lng a"]
      m c ..
qed

lemma haversineKmWith_sym:
  "signSymmetric ops \<Longrightarrow> haversineKmWith ops a b = haversineKmWith ops b a"
  by (simp only: haversineKmWith_def asinArgWith_def haversineHWith_sym [of ops a b])

lemma haversineKmWith_self:
  assumes z: "zeroExact ops"
  shows "haversineKmWith ops a a = 0"
proof -
  have r: "toRadWith ops 0 = 0"
    unfolding toRadWith_def by (simp add: zeroExactD(2) [OF z] zeroExactD(4) [OF z])
  have h: "fsin ops (fdiv ops 0 2) = 0"
    by (simp add: zeroExactD(4) [OF z] zeroExactD(5) [OF z])
  have "haversineHWith ops a a = 0"
    unfolding haversineHWith_def Let_def
    by (simp add: zeroExactD(1) [OF z] r h zeroExactD(3) [OF z] zeroExactD(6) [OF z])
  then show ?thesis
    unfolding haversineKmWith_def asinArgWith_def Let_def
    by (simp add: zeroExactD(7) [OF z] zeroExactD(8) [OF z] zeroExactD(3) [OF z])
qed

lemma asinArgWith_le_one: "asinArgWith ops a b \<le> 1"
  by (simp add: asinArgWith_def)

lemma haversineKmWith_asin:
  "haversineKmWith ops a b = fmul ops (fmul ops 2 6371) (fasin ops (asinArgWith ops a b))"
  by (simp add: haversineKmWith_def)

text \<open>
  C9, for the arithmetic of the runtime as a parameter: the distance is symmetric when the
  operations commute and are symmetric under a change of sign, which rounding to nearest
  is; it is zero from a point to itself when they are exact at zero; and whatever the
  operations return, so also when a rounded square root exceeds 1, the one argument the
  arcsine is called with is at most 1.  With exact operations the distance is
  \<open>haversineKm\<close>.
\<close>

theorem distance_symmetry_clamp:
  "(signSymmetric ops \<longrightarrow> haversineKmWith ops a b = haversineKmWith ops b a)
   \<and> (zeroExact ops \<longrightarrow> haversineKmWith ops a a = 0)
   \<and> haversineKmWith ops a b = fmul ops (fmul ops 2 6371) (fasin ops (asinArgWith ops a b))
   \<and> asinArgWith ops a b \<le> 1
   \<and> haversineKmWith exactOps a b = haversineKm a b"
  using haversineKmWith_sym [of ops a b] haversineKmWith_self [of ops a]
    asinArgWith_le_one [of ops a b] haversineKmWith_exact [of a b]
    haversineKmWith_asin [of ops a b]
  by blast

theorem distance_symmetry_clamp_witness:
  "signSymmetric doubleOps \<and> zeroExact doubleOps
   \<and> haversineKmWith doubleOps pick1 pick2 = haversineKmWith doubleOps pick2 pick1
   \<and> haversineKmWith doubleOps pick1 pick1 = 0
   \<and> asinArgWith doubleOps pick1 pick2 \<le> 1"
  using distance_symmetry_clamp [of doubleOps pick1 pick2] doubleOps_laws
  by simp

text \<open>
  The clamp at work: with a square root that returns one part in \<open>2 ^ 52\<close> too much, the
  root of \<open>h\<close> for two opposite points of the equator exceeds 1, and the argument of the
  arcsine is 1.
\<close>

lemma clamp_cuts_excess:
  "fsqrt (exactOps\<lparr>fsqrt := \<lambda>x. sqrt x * (1 + 1 / 2 ^ 52)\<rparr>)
      (haversineHWith (exactOps\<lparr>fsqrt := \<lambda>x. sqrt x * (1 + 1 / 2 ^ 52)\<rparr>)
         \<lparr>lat = 0, lng = 0\<rparr> \<lparr>lat = 0, lng = 180\<rparr>) > 1
   \<and> asinArgWith (exactOps\<lparr>fsqrt := \<lambda>x. sqrt x * (1 + 1 / 2 ^ 52)\<rparr>)
         \<lparr>lat = 0, lng = 0\<rparr> \<lparr>lat = 0, lng = 180\<rparr> = 1"
  by (simp add: asinArgWith_def haversineHWith_def toRadWith_def exactOps_def Let_def)

subsection \<open>Distances along the equator\<close>

lemma kmPerDeg_gt: "70 < kmPerDeg"
  using pi_ge_two by (simp add: kmPerDeg_def)

lemma haversineKm_equator:
  assumes "lat a = 0" "lat b = 0" "\<bar>lng b - lng a\<bar> \<le> 180"
  shows "haversineKm a b = kmPerDeg * \<bar>lng b - lng a\<bar>"
proof -
  define x where "x = toRad (lng b - lng a) / 2"
  have ax: "\<bar>x\<bar> = \<bar>lng b - lng a\<bar> * pi / 360"
    by (simp add: x_def toRad_def abs_mult)
  have x_le: "\<bar>x\<bar> \<le> pi / 2"
    unfolding ax using assms(3) pi_gt_zero by (simp add: field_simps)
  have h: "haversineH a b = sin x * sin x"
    using assms by (simp add: haversineH_def Let_def x_def toRad_def)
  have "sqrt (sin x * sin x) = \<bar>sin x\<bar>" by simp
  also have "\<bar>sin x\<bar> = sin \<bar>x\<bar>"
  proof (cases "0 \<le> x")
    case True
    then have "0 \<le> sin x" using x_le pi_gt_zero by (intro sin_ge_zero) auto
    with True show ?thesis by simp
  next
    case False
    then have "0 \<le> sin (- x)" using x_le pi_gt_zero by (intro sin_ge_zero) auto
    with False show ?thesis by simp
  qed
  finally have sq: "sqrt (haversineH a b) = sin \<bar>x\<bar>" by (simp add: h)
  have "asinArg a b = sin \<bar>x\<bar>"
    unfolding asinArg_def sq using sin_le_one [of "\<bar>x\<bar>"] by (simp only: min_absorb2)
  moreover have "arcsin (sin \<bar>x\<bar>) = \<bar>x\<bar>"
    using x_le by (intro arcsin_sin) auto
  ultimately have "haversineKm a b = 2 * 6371 * \<bar>x\<bar>"
    by (simp add: haversineKm_def)
  then show ?thesis by (simp add: ax kmPerDeg_def)
qed

lemma kmPerDeg_cancel [simp]:
  "kmPerDeg * a + kmPerDeg * b = kmPerDeg * (a + b)"
  "kmPerDeg * a - kmPerDeg * b = kmPerDeg * (a - b)"
  "(kmPerDeg * a \<le> kmPerDeg * b) = (a \<le> b)"
  "(kmPerDeg * a < kmPerDeg * b) = (a < b)"
  "(kmPerDeg * a = kmPerDeg * b) = (a = b)"
  using kmPerDeg_gt by (simp_all add: algebra_simps)

lemma kmPerDeg_pos [simp]: "0 < kmPerDeg" "\<not> kmPerDeg \<le> 0" "kmPerDeg \<noteq> 0"
  using kmPerDeg_gt by simp_all

lemma pick_fields [simp]:
  "lat pick1 = 0" "lng pick1 = 1 / 10" "stop_id pick1 = ''1''" "demand pick1 = 2"
  "lat pick2 = 0" "lng pick2 = 2 / 10" "stop_id pick2 = ''2''" "demand pick2 = 2"
  "lat pick3 = 0" "lng pick3 = 3 / 10" "stop_id pick3 = ''3''" "demand pick3 = 2"
  "lat selftest_depot = 0" "lng selftest_depot = 0"
  by (simp_all add: pick1_def pick2_def pick3_def selftest_depot_def)

lemma selftest_savingsGenerated:
  "savingsGenerated selftest_depot [pick1, pick2, pick3] =
    [\<lparr>sav_i = pick1, sav_j = pick2, sav_s = kmPerDeg * (2 / 10)\<rparr>,
     \<lparr>sav_i = pick1, sav_j = pick3, sav_s = kmPerDeg * (2 / 10)\<rparr>,
     \<lparr>sav_i = pick2, sav_j = pick3, sav_s = kmPerDeg * (4 / 10)\<rparr>]"
  by (simp add: savingsGenerated_def d0_table_def dij_table_def idKey_def Let_def
      haversineKm_equator)

lemma selftest_savings:
  "savings selftest_depot [pick1, pick2, pick3] =
    [\<lparr>sav_i = pick2, sav_j = pick3, sav_s = kmPerDeg * (4 / 10)\<rparr>,
     \<lparr>sav_i = pick1, sav_j = pick2, sav_s = kmPerDeg * (2 / 10)\<rparr>,
     \<lparr>sav_i = pick1, sav_j = pick3, sav_s = kmPerDeg * (2 / 10)\<rparr>]"
  by (simp add: savings_def sortSavings_def selftest_savingsGenerated)

subsection \<open>The merge step\<close>

lemma findRouteAndPos_from_bound:
  "findRouteAndPos_from routes k stop = Some p \<Longrightarrow> k \<le> rIdx p \<and> rIdx p < length routes"
proof (induction routes k stop rule: findRouteAndPos_from.induct)
  case (1 routes k stop)
  from "1.prems" have lt: "k < length routes"
    by (simp add: findRouteAndPos_from.simps [of routes k] split: if_splits)
  show ?case
  proof (cases "findRouteAndPos_from routes (k + 1) stop = Some p")
    case True
    from "1.prems" lt True "1.IH" show ?thesis
      by (auto simp: findRouteAndPos_from.simps [of routes k] Let_def split: if_splits)
  next
    case False
    with "1.prems" lt show ?thesis
      by (auto simp: findRouteAndPos_from.simps [of routes k] Let_def split: if_splits)
  qed
qed

lemma findRouteAndPos_bound:
  "findRouteAndPos routes stop = Some p \<Longrightarrow> rIdx p < length routes"
  using findRouteAndPos_from_bound [of routes 0 stop p] by (simp add: findRouteAndPos_def)

lemma mset_splice1:
  assumes k: "k < length xs"
  shows "mset (splice1 xs k) = mset xs - {#xs ! k#}"
proof -
  define ys where "ys = take k xs"
  define zs where "zs = drop (Suc k) xs"
  define x where "x = xs ! k"
  have xs: "xs = ys @ x # zs"
    unfolding ys_def zs_def x_def using k by (rule id_take_nth_drop)
  have "mset (splice1 xs k) = mset ys + mset zs"
    by (simp add: splice1_def ys_def zs_def)
  also have "\<dots> = mset (ys @ x # zs) - {#x#}" by simp
  also have "\<dots> = mset xs - {#x#}" using xs by simp
  finally show ?thesis unfolding x_def .
qed

lemma set_splice1: "set (splice1 xs k) \<subseteq> set xs"
  by (auto simp: splice1_def dest: in_set_takeD in_set_dropD)

lemma length_splice1: "k < length xs \<Longrightarrow> length (splice1 xs k) = length xs - 1"
  by (auto simp: splice1_def)

text \<open>What one iteration does: nothing, or one merge of two different routes.\<close>

lemma mergeStep_cases:
  "mergeStep capacity routes e = routes \<or>
   (\<exists>a b l. a < length routes \<and> b < length routes \<and> a \<noteq> b
      \<and> R.load (routes ! a) + R.load (routes ! b) \<le> capacity
      \<and> mset l = mset (customers (routes ! a)) + mset (customers (routes ! b))
      \<and> mergeStep capacity routes e =
          splice1 (routes[a := \<lparr>customers = l, load = R.load (routes ! a) + R.load (routes ! b)\<rparr>]) b)"
proof (cases "findRouteAndPos routes (sav_i e)")
  case None
  then show ?thesis by (simp add: mergeStep_def)
next
  case (Some fi)
  note fi = this
  show ?thesis
  proof (cases "findRouteAndPos routes (sav_j e)")
    case None
    with fi show ?thesis by (simp add: mergeStep_def)
  next
    case (Some fj)
    note fj = this
    show ?thesis
    proof (cases "rIdx fi \<noteq> rIdx fj \<and> atStart fi \<noteq> None \<and> atStart fj \<noteq> None
         \<and> \<not> R.load (routes ! rIdx fi) + R.load (routes ! rIdx fj) > capacity")
      case False
      with fi fj show ?thesis
        by (auto simp: mergeStep_def Let_def split: option.splits)
    next
      case True
      then obtain x y where xy: "atStart fi = Some x" "atStart fj = Some y" by auto
      let ?l = "(if x then rev (customers (routes ! rIdx fi)) else customers (routes ! rIdx fi))
              @ (if \<not> y then rev (customers (routes ! rIdx fj)) else customers (routes ! rIdx fj))"
      have "mset ?l = mset (customers (routes ! rIdx fi)) + mset (customers (routes ! rIdx fj))"
        by simp
      moreover have "mergeStep capacity routes e =
          splice1 (routes[rIdx fi := \<lparr>customers = ?l,
             load = R.load (routes ! rIdx fi) + R.load (routes ! rIdx fj)\<rparr>]) (rIdx fj)"
        using fi fj True xy by (simp add: mergeStep_def Let_def)
      moreover note findRouteAndPos_bound [OF fi] findRouteAndPos_bound [OF fj] True
      ultimately show ?thesis by (intro disjI2 exI [of _ "rIdx fi"] exI [of _ "rIdx fj"] exI [of _ ?l]) simp
    qed
  qed
qed

lemma two_positions:
  assumes "a < b" "b < length rs"
  shows "\<exists>p q t. rs = p @ rs ! a # q @ rs ! b # t \<and> length p = a \<and> length q = b - a - 1"
proof -
  define p1 where "p1 = take b rs"
  define t where "t = drop (Suc b) rs"
  have rs: "rs = p1 @ rs ! b # t"
    unfolding p1_def t_def using assms(2) by (rule id_take_nth_drop)
  have lp1: "length p1 = b" using assms by (simp add: p1_def)
  define p where "p = take a p1"
  define q where "q = drop (Suc a) p1"
  have p1: "p1 = p @ p1 ! a # q"
    unfolding p_def q_def using assms lp1 by (intro id_take_nth_drop) simp
  have pa: "p1 ! a = rs ! a" using assms by (simp add: p1_def)
  have "length p = a" "length q = b - a - 1"
    using assms lp1 by (simp_all add: p_def q_def)
  moreover have "rs = p @ rs ! a # q @ rs ! b # t"
    using rs p1 pa by (metis append.assoc append_Cons)
  ultimately show ?thesis by blast
qed

lemma merge_shape:
  assumes "a < length rs" "b < length rs" "a \<noteq> b"
  shows "\<exists>p q t.
     (rs = p @ rs ! a # q @ rs ! b # t \<and> splice1 (rs[a := x]) b = p @ x # q @ t) \<or>
     (rs = p @ rs ! b # q @ rs ! a # t \<and> splice1 (rs[a := x]) b = p @ q @ x # t)"
proof (cases "a < b")
  case True
  from two_positions [OF True assms(2)]
  obtain p q t where rs: "rs = p @ rs ! a # q @ rs ! b # t"
    and lp: "length p = a" and lq: "length q = b - a - 1" by blast
  define ra where "ra = rs ! a"
  define rb where "rb = rs ! b"
  have rs': "rs = p @ ra # q @ rb # t" using rs by (simp add: ra_def rb_def)
  have b: "b = length (p @ x # q)" using lp lq True by simp
  have "(p @ ra # q @ rb # t)[a := x] = p @ x # q @ rb # t"
    using lp by (simp add: list_update_append)
  then have "splice1 ((p @ ra # q @ rb # t)[a := x]) b = p @ x # q @ t"
    using b by (simp add: splice1_def)
  then have "splice1 (rs[a := x]) b = p @ x # q @ t"
    using rs' by simp
  with rs show ?thesis by blast
next
  case False
  with assms have ba: "b < a" by simp
  from two_positions [OF ba assms(1)]
  obtain p q t where rs: "rs = p @ rs ! b # q @ rs ! a # t"
    and lp: "length p = b" and lq: "length q = a - b - 1" by blast
  define ra where "ra = rs ! a"
  define rb where "rb = rs ! b"
  have rs': "rs = p @ rb # q @ ra # t" using rs by (simp add: ra_def rb_def)
  have a: "a = length (p @ rb # q)" using lp lq ba by simp
  have "(p @ rb # q @ ra # t)[a := x] = (p @ rb # q) @ x # t"
    unfolding a by (metis append.assoc append_Cons list_update_length)
  then have "splice1 ((p @ rb # q @ ra # t)[a := x]) b = p @ q @ x # t"
    using lp by (simp add: splice1_def)
  then have "splice1 (rs[a := x]) b = p @ q @ x # t"
    using rs' by simp
  with rs show ?thesis by blast
qed

text \<open>
  One iteration leaves the routes as they are, or replaces two routes \<open>ra\<close> and \<open>rb\<close> at
  different positions by one route \<open>x\<close> at the position of \<open>ra\<close>: \<open>x\<close> has the stops of
  both and the sum of their loads, which is within the capacity.
\<close>

lemma mergeStep_shape:
  "mergeStep capacity rs e = rs \<or>
   (\<exists>ra rb x p q t.
      R.load ra + R.load rb \<le> capacity \<and> R.load x = R.load ra + R.load rb
      \<and> mset (customers x) = mset (customers ra) + mset (customers rb)
      \<and> ((rs = p @ ra # q @ rb # t \<and> mergeStep capacity rs e = p @ x # q @ t) \<or>
          (rs = p @ rb # q @ ra # t \<and> mergeStep capacity rs e = p @ q @ x # t)))"
proof (cases "mergeStep capacity rs e = rs")
  case True
  then show ?thesis by simp
next
  case False
  with mergeStep_cases [of capacity rs e]
  obtain a b l where ab: "a < length rs" "b < length rs" "a \<noteq> b"
    and cap: "R.load (rs ! a) + R.load (rs ! b) \<le> capacity"
    and l: "mset l = mset (customers (rs ! a)) + mset (customers (rs ! b))"
    and step: "mergeStep capacity rs e =
          splice1 (rs[a := \<lparr>customers = l, load = R.load (rs ! a) + R.load (rs ! b)\<rparr>]) b"
    by blast
  define x where "x = \<lparr>customers = l, load = R.load (rs ! a) + R.load (rs ! b)\<rparr>"
  from merge_shape [OF ab, of x]
  obtain p q t where pqt:
    "(rs = p @ rs ! a # q @ rs ! b # t \<and> splice1 (rs[a := x]) b = p @ x # q @ t) \<or>
     (rs = p @ rs ! b # q @ rs ! a # t \<and> splice1 (rs[a := x]) b = p @ q @ x # t)" by blast
  have x: "R.load x = R.load (rs ! a) + R.load (rs ! b)"
    "mset (customers x) = mset (customers (rs ! a)) + mset (customers (rs ! b))"
    using l by (simp_all add: x_def)
  have "(rs = p @ rs ! a # q @ rs ! b # t \<and> mergeStep capacity rs e = p @ x # q @ t) \<or>
        (rs = p @ rs ! b # q @ rs ! a # t \<and> mergeStep capacity rs e = p @ q @ x # t)"
    using pqt unfolding step [folded x_def] .
  with cap x show ?thesis by blast
qed

subsection \<open>Invariants of the merge loop\<close>

lemma mergeStep_customers:
  "mset (concat (map customers (mergeStep capacity rs e))) = mset (concat (map customers rs))"
  using mergeStep_shape [of capacity rs e] by (elim disjE exE conjE) simp_all

lemma mergeStep_total_load:
  "sum_list (map R.load (mergeStep capacity rs e)) = sum_list (map R.load rs)"
  using mergeStep_shape [of capacity rs e] by (elim disjE exE conjE) simp_all

lemma mergeStep_length:
  "length (mergeStep capacity rs e) \<le> length rs"
  using mergeStep_shape [of capacity rs e] by (elim disjE exE conjE) simp_all

lemma mergeStep_mem:
  assumes "r \<in> set (mergeStep capacity rs e)"
  shows "r \<in> set rs \<or>
    (\<exists>ra\<in>set rs. \<exists>rb\<in>set rs. R.load r = R.load ra + R.load rb \<and> R.load r \<le> capacity
        \<and> mset (customers r) = mset (customers ra) + mset (customers rb))"
  using mergeStep_shape [of capacity rs e] assms
  by (elim disjE exE conjE) auto

lemma mergeLoop_invariant:
  assumes "P rs" and "\<And>rs e. P rs \<Longrightarrow> P (mergeStep capacity rs e)"
  shows "P (mergeLoop capacity rs es)"
  using assms(1)
proof (induction es arbitrary: rs)
  case Nil
  then show ?case by simp
next
  case (Cons e es)
  from Cons.prems have "P (mergeStep capacity rs e)" by (rule assms(2))
  then show ?case using Cons.IH by simp
qed

lemma initRoutes_customers: "concat (map customers (initRoutes cs)) = cs"
  by (induction cs) (simp_all add: initRoutes_def)

lemma initRoutes_total_load: "sum_list (map R.load (initRoutes cs)) = sum_list (map demand cs)"
  by (induction cs) (simp_all add: initRoutes_def)

lemma initRoutes_mem: "r \<in> set (initRoutes cs) \<Longrightarrow> \<exists>c\<in>set cs. r = \<lparr>customers = [c], load = demand c\<rparr>"
  by (auto simp: initRoutes_def)

lemma length_initRoutes: "length (initRoutes cs) = length cs"
  by (simp add: initRoutes_def)

text \<open>The working routes hold every input stop once, whatever the savings are.\<close>

lemma mergeLoop_customers:
  "mset (concat (map customers (mergeLoop capacity rs es))) = mset (concat (map customers rs))"
  by (rule mergeLoop_invariant) (simp_all add: mergeStep_customers)

lemma mergePhase_customers:
  "mset (concat (map customers (mergePhase depot cs capacity))) = mset cs"
  by (simp add: mergePhase_def mergeLoop_customers initRoutes_customers)

lemma mergeLoop_total_load:
  "sum_list (map R.load (mergeLoop capacity rs es)) = sum_list (map R.load rs)"
  by (rule mergeLoop_invariant) (simp_all add: mergeStep_total_load)

lemma mergePhase_total_load:
  "sum_list (map R.load (mergePhase depot cs capacity)) = sum_list (map demand cs)"
  by (simp add: mergePhase_def mergeLoop_total_load initRoutes_total_load)

lemma mergeLoop_length: "length (mergeLoop capacity rs es) \<le> length rs"
proof (induction es arbitrary: rs)
  case Nil
  show ?case by simp
next
  case (Cons e es)
  have "length (mergeLoop capacity (mergeStep capacity rs e) es) \<le> length (mergeStep capacity rs e)"
    by (rule Cons.IH)
  with mergeStep_length [of capacity rs e] show ?case by simp
qed

lemma sum_demand_mset:
  "mset xs = mset ys + mset zs \<Longrightarrow>
   sum_list (map demand xs) = sum_list (map demand ys) + sum_list (map demand zs)"
proof -
  assume "mset xs = mset ys + mset zs"
  then have "mset xs = mset (ys @ zs)" by simp
  then have "mset (map demand xs) = mset (map demand (ys @ zs))" by (metis mset_map)
  then have "sum_list (map demand xs) = sum_list (map demand (ys @ zs))"
    by (metis sum_mset_sum_list)
  then show ?thesis by simp
qed

lemma length_mset_sum:
  "mset xs = mset ys + mset zs \<Longrightarrow> length xs = length ys + length zs"
  by (metis length_append mset_append mset_eq_length)

lemma mergeStep_load_is_sum:
  assumes "\<forall>r\<in>set rs. R.load r = sum_list (map demand (customers r))"
  shows "\<forall>r\<in>set (mergeStep capacity rs e). R.load r = sum_list (map demand (customers r))"
proof
  fix r assume "r \<in> set (mergeStep capacity rs e)"
  from mergeStep_mem [OF this] assms show "R.load r = sum_list (map demand (customers r))"
    by (auto simp: sum_demand_mset)
qed

lemma mergePhase_load_is_sum:
  "\<forall>r\<in>set (mergePhase depot cs capacity). R.load r = sum_list (map demand (customers r))"
  unfolding mergePhase_def
proof (rule mergeLoop_invariant)
  show "\<forall>r\<in>set (initRoutes cs). R.load r = sum_list (map demand (customers r))"
    by (auto simp: initRoutes_def)
qed (rule mergeStep_load_is_sum)

text \<open>
  A working route is a first singleton with the load of its stop, or it has two stops or
  more and a load within the capacity.
\<close>

lemma mergeStep_capacity:
  assumes "\<forall>r\<in>set rs. (\<exists>c\<in>set cs. customers r = [c] \<and> R.load r = demand c)
             \<or> (2 \<le> length (customers r) \<and> R.load r \<le> capacity)"
  shows "\<forall>r\<in>set (mergeStep capacity rs e). (\<exists>c\<in>set cs. customers r = [c] \<and> R.load r = demand c)
             \<or> (2 \<le> length (customers r) \<and> R.load r \<le> capacity)"
proof
  fix r assume "r \<in> set (mergeStep capacity rs e)"
  from mergeStep_mem [OF this]
  show "(\<exists>c\<in>set cs. customers r = [c] \<and> R.load r = demand c)
             \<or> (2 \<le> length (customers r) \<and> R.load r \<le> capacity)"
  proof
    assume "r \<in> set rs"
    with assms show ?thesis by blast
  next
    assume "\<exists>ra\<in>set rs. \<exists>rb\<in>set rs. R.load r = R.load ra + R.load rb \<and> R.load r \<le> capacity
        \<and> mset (customers r) = mset (customers ra) + mset (customers rb)"
    then obtain ra rb where ra: "ra \<in> set rs" and rb: "rb \<in> set rs"
      and le: "R.load r \<le> capacity"
      and m: "mset (customers r) = mset (customers ra) + mset (customers rb)" by blast
    from assms ra have "1 \<le> length (customers ra)" by fastforce
    moreover from assms rb have "1 \<le> length (customers rb)" by fastforce
    ultimately have "2 \<le> length (customers r)"
      using length_mset_sum [OF m] by simp
    with le show ?thesis by simp
  qed
qed

lemma mergePhase_capacity:
  "\<forall>r\<in>set (mergePhase depot cs capacity). (\<exists>c\<in>set cs. customers r = [c] \<and> R.load r = demand c)
             \<or> (2 \<le> length (customers r) \<and> R.load r \<le> capacity)"
  unfolding mergePhase_def
proof (rule mergeLoop_invariant)
  show "\<forall>r\<in>set (initRoutes cs). (\<exists>c\<in>set cs. customers r = [c] \<and> R.load r = demand c)
             \<or> (2 \<le> length (customers r) \<and> R.load r \<le> capacity)"
    by (auto simp: initRoutes_def)
qed (rule mergeStep_capacity)

subsection \<open>What 2-opt returns\<close>

lemma error_only: "(e :: error) = TypeError"
  by (cases e) simp

lemma addE_Inl [simp]: "addE (Inl e) y = Inl e"
  by (simp add: addE_def)

lemma addE_Inr_Inl [simp]: "addE (Inr u) (Inl e) = Inl e"
  by (simp add: addE_def)

lemma addE_Inr_Inr [simp]: "addE (Inr u) (Inr v) = Inr (u + v)"
  by (simp add: addE_def)

lemma addE_right_Inl: "addE x (Inl e) = Inl TypeError"
  by (cases x) (simp_all add: error_only)

lemma haversineKmE_simps [simp]:
  "haversineKmE (Some p) (Some q) = Inr (haversineKm p q)"
  "haversineKmE None b = Inl TypeError"
  "haversineKmE a None = Inl TypeError"
  by (simp_all add: haversineKmE_def split: option.splits)

lemma node_depot [simp]:
  "node depot best (- 1) = Some (LatLng.truncate depot)"
  "node depot best (int (length best)) = Some (LatLng.truncate depot)"
  by (simp_all add: node_def)

lemma node_stop: "n < length best \<Longrightarrow> node depot best (int n) = Some (LatLng.truncate (best ! n))"
  by (simp add: node_def)

lemma node_beyond: "length best < n \<Longrightarrow> node depot best (int n) = None"
  by (simp add: node_def)

lemma node_defined: "- 1 \<le> idx \<Longrightarrow> idx \<le> int (length best) \<Longrightarrow> node depot best idx \<noteq> None"
  by (simp add: node_def)

text \<open>At the last \<open>k\<close> of a row, \<open>distWithDepot(k, k + 1)\<close> reads \<open>node(k + 2)\<close>, which is undefined.\<close>

lemma twoOptBefore_last:
  "k + 1 = length best \<Longrightarrow> twoOptBefore depot best i k = Inl TypeError"
proof -
  assume k: "k + 1 = length best"
  have "int k + 1 + 1 = int (k + 2)" by simp
  moreover have "node depot best (int (k + 2)) = None"
    using k by (intro node_beyond) simp
  ultimately have "distWithDepot depot best (int k) (int k + 1) = Inl TypeError"
    by (simp add: distWithDepot_def Let_def addE_right_Inl)
  then show ?thesis by (simp add: twoOptBefore_def addE_right_Inl)
qed

lemma haversineKmE_defined:
  "a \<noteq> None \<Longrightarrow> b \<noteq> None \<Longrightarrow> \<exists>v. haversineKmE a b = Inr v"
  by (cases a; cases b) simp_all

lemma haversineKmE_node_defined:
  "- 1 \<le> a \<Longrightarrow> a \<le> int (length best) \<Longrightarrow> - 1 \<le> b \<Longrightarrow> b \<le> int (length best)
   \<Longrightarrow> \<exists>v. haversineKmE (node depot best a) (node depot best b) = Inr v"
  by (simp add: haversineKmE_defined node_defined)

lemma distWithDepot_defined:
  "- 1 \<le> a \<Longrightarrow> a + 1 \<le> int (length best) \<Longrightarrow> - 1 \<le> b \<Longrightarrow> b + 1 \<le> int (length best)
   \<Longrightarrow> \<exists>v. distWithDepot depot best a b = Inr v"
proof -
  assume h: "- 1 \<le> a" "a + 1 \<le> int (length best)" "- 1 \<le> b" "b + 1 \<le> int (length best)"
  obtain u where u: "haversineKmE (node depot best a) (node depot best (a + 1)) = Inr u"
    using haversineKmE_node_defined [of a best "a + 1" depot] h by auto
  obtain v where v: "haversineKmE (node depot best b) (node depot best (b + 1)) = Inr v"
    using haversineKmE_node_defined [of b best "b + 1" depot] h by auto
  show ?thesis by (simp add: distWithDepot_def Let_def u v)
qed

lemma twoOptCompare_defined:
  assumes "i < k" "k + 1 < length best"
  shows "\<exists>best' acc. twoOptCompare depot best i k = Inr (best', acc)"
proof -
  obtain u where u: "distWithDepot depot best (int i - 1) (int i) = Inr u"
    using distWithDepot_defined [of "int i - 1" best "int i" depot] assms by auto
  obtain v where v: "distWithDepot depot best (int k) (int k + 1) = Inr v"
    using distWithDepot_defined [of "int k" best "int k + 1" depot] assms by auto
  have before: "twoOptBefore depot best i k = Inr (u + v)"
    by (simp add: twoOptBefore_def u v)
  let ?c = "candidate best i k"
  have len: "length ?c = length best" using assms by (simp add: length_candidate)
  obtain u' where u': "haversineKmE (node depot ?c (int i - 1)) (node depot ?c (int i)) = Inr u'"
    using haversineKmE_node_defined [of "int i - 1" ?c "int i" depot] assms len by auto
  obtain v' where v': "haversineKmE (node depot ?c (int k)) (node depot ?c (int k + 1)) = Inr v'"
    using haversineKmE_node_defined [of "int k" ?c "int k + 1" depot] assms len by auto
  have after: "twoOptAfter depot ?c i k = Inr (u' + v')"
    by (simp add: twoOptAfter_def u' v')
  show ?thesis by (auto simp: twoOptCompare_def before after)
qed

text \<open>Every row of the inner loop ends in the exception.\<close>

lemma twoOpt_kloop_throws:
  "i < k \<Longrightarrow> k < length (fst st) \<Longrightarrow> twoOpt_kloop depot i k st = Inl TypeError"
proof (induction depot i k st rule: twoOpt_kloop.induct)
  case (1 depot i k best improved)
  then have k: "k < length best" by simp
  show ?case
  proof (cases "k + 1 = length best")
    case True
    then show ?thesis
      using k by (simp add: twoOpt_kloop.simps twoOptCompare_def twoOptBefore_last)
  next
    case False
    with k have k1: "k + 1 < length best" by simp
    from twoOptCompare_defined [OF "1.prems"(1) k1]
    obtain best' acc where c: "twoOptCompare depot best i k = Inr (best', acc)" by blast
    have len: "length best' = length best"
      using twoOptCompare_length [OF c] "1.prems"(1) by simp
    have "twoOpt_kloop depot i (k + 1) (best', improved \<or> acc) = Inl TypeError"
      using "1.IH" [OF k c refl] "1.prems"(1) k1 len by simp
    then show ?thesis using k c by (simp add: twoOpt_kloop.simps)
  qed
qed

lemma twoOpt_iloop_throws:
  "2 \<le> length best \<Longrightarrow> twoOpt_iloop depot 0 (best, improved) = Inl TypeError"
  using twoOpt_kloop_throws [of 0 1 "(best, improved)" depot]
  by (simp add: twoOpt_iloop.simps)

lemma twoOpt_while_throws:
  "2 \<le> length best \<Longrightarrow> twoOpt_while depot best = Some (Inl TypeError)"
  by (subst twoOpt_while.simps) (simp add: twoOpt_iloop_throws)

text \<open>What \<open>twoOpt\<close> returns, for every route.\<close>

lemma twoOpt_eq:
  "twoOpt depot seq = Some (if length seq < 4 then Inr seq else Inl TypeError)"
  by (simp add: twoOpt_def twoOpt_while_throws)

subsection \<open>What the solver returns\<close>

lemma routeResults_eq:
  "routeResults depot rs =
     Some (if \<exists>r\<in>set rs. 4 \<le> length (customers r) then Inl TypeError
           else Inr (map (resultOf depot) rs))"
  by (induction rs) (auto simp: twoOpt_eq resultOf_def)

lemma clarkeWright_eq:
  "clarkeWright depot cs capacity =
     Some (if cs = [] then Inr []
           else if \<exists>r\<in>set (mergePhase depot cs capacity). 4 \<le> length (customers r)
             then Inl TypeError
           else Inr (sort_key distanceKm (map (resultOf depot) (mergePhase depot cs capacity))))"
  by (simp add: clarkeWright_def routeResults_eq)

subsection \<open>The self-test input, evaluated\<close>

lemma selftest_mergePhase:
  "mergePhase selftest_depot [pick1, pick2, pick3] 4 =
     [\<lparr>customers = [pick1], load = 2\<rparr>, \<lparr>customers = [pick2, pick3], load = 4\<rparr>]"
  by (simp add: mergePhase_def selftest_savings initRoutes_def mergeStep_def
      findRouteAndPos_def findRouteAndPos_from.simps splice1_def Let_def)

lemma selftest_distances:
  "roundTripKm selftest_depot [pick1] = kmPerDeg * (2 / 10)"
  "roundTripKm selftest_depot [pick2, pick3] = kmPerDeg * (6 / 10)"
  by (simp_all add: roundTripKm_def haversineKm_equator LatLng.truncate_def)

lemma selftest_clarkeWright:
  "clarkeWright selftest_depot [pick1, pick2, pick3] 4 =
     Some (Inr [\<lparr>route = [pick1], distanceKm = kmPerDeg * (2 / 10), load = 2\<rparr>,
                \<lparr>route = [pick2, pick3], distanceKm = kmPerDeg * (6 / 10), load = 4\<rparr>])"
  by (simp add: clarkeWright_eq selftest_mergePhase resultOf_def selftest_distances)

subsection \<open>Partition, load and capacity\<close>

lemma mset_concat_map_sort_key:
  "mset (concat (map g (sort_key f xs))) = mset (concat (map g xs))"
proof -
  have "mset (map g (sort_key f xs)) = mset (map g xs)" by simp
  then have "sum_list (map mset (map g (sort_key f xs))) = sum_list (map mset (map g xs))"
    by (metis mset_map sum_mset_sum_list)
  then show ?thesis by (simp add: mset_concat)
qed

lemma sum_list_map_sort_key:
  fixes g :: "'a \<Rightarrow> real"
  shows "sum_list (map g (sort_key f xs)) = sum_list (map g xs)"
proof -
  have "mset (map g (sort_key f xs)) = mset (map g xs)" by simp
  then show ?thesis by (metis sum_mset_sum_list)
qed

lemma concat_route_resultOf:
  "concat (map route (map (resultOf depot) rs)) = concat (map customers rs)"
  by (induction rs) (simp_all add: resultOf_def)

lemma load_resultOf: "map RouteResult.load (map (resultOf depot) rs) = map R.load rs"
  by (simp add: resultOf_def)

text \<open>What a returned list of results is.\<close>

lemma clarkeWright_returns:
  assumes "clarkeWright depot cs capacity = Some (Inr res)"
  shows "res = sort_key distanceKm (map (resultOf depot) (mergePhase depot cs capacity))"
proof (cases "cs = []")
  case True
  then have "mergePhase depot cs capacity = []"
    by (simp add: mergePhase_def savings_def savingsGenerated_def sortSavings_def initRoutes_def)
  with True assms show ?thesis by (simp add: clarkeWright_eq)
next
  case False
  with assms show ?thesis by (simp add: clarkeWright_eq split: if_splits)
qed

lemma clarkeWright_stops:
  assumes "clarkeWright depot cs capacity = Some (Inr res)"
  shows "mset (concat (map route res)) = mset cs"
  unfolding clarkeWright_returns [OF assms]
  by (simp add: mset_concat_map_sort_key concat_route_resultOf mergePhase_customers del: map_map)

text \<open>
  C4: the stop ids over the working routes at the end of the merge loop are the input's
  stop ids, each as often as in the input; when the solver returns, the same holds of
  the routes it returns, and with distinct input ids no id stands at two positions.
\<close>

theorem partition_property:
  assumes "distinct (map stop_id cs)"
  shows "mset (map stop_id (concat (map customers (mergePhase depot cs capacity))))
           = mset (map stop_id cs)
       \<and> (\<forall>res. clarkeWright depot cs capacity = Some (Inr res) \<longrightarrow>
             mset (map stop_id (concat (map route res))) = mset (map stop_id cs)
           \<and> distinct (map stop_id (concat (map route res))))"
proof (intro conjI allI impI)
  show "mset (map stop_id (concat (map customers (mergePhase depot cs capacity))))
           = mset (map stop_id cs)"
    using mergePhase_customers [of depot cs capacity] by (metis mset_map)
next
  fix res assume r: "clarkeWright depot cs capacity = Some (Inr res)"
  show m: "mset (map stop_id (concat (map route res))) = mset (map stop_id cs)"
    using clarkeWright_stops [OF r] by (metis mset_map)
  show "distinct (map stop_id (concat (map route res)))"
    using m assms by (metis mset_eq_imp_distinct_iff)
qed

theorem partition_property_witness:
  "distinct (map stop_id [pick1, pick2, pick3])
   \<and> clarkeWright selftest_depot [pick1, pick2, pick3] 4 =
       Some (Inr [\<lparr>route = [pick1], distanceKm = kmPerDeg * (2 / 10), load = 2\<rparr>,
                  \<lparr>route = [pick2, pick3], distanceKm = kmPerDeg * (6 / 10), load = 4\<rparr>])
   \<and> mset (map stop_id (concat (map route
         [\<lparr>route = [pick1], distanceKm = kmPerDeg * (2 / 10), load = 2\<rparr>,
          \<lparr>route = [pick2, pick3], distanceKm = kmPerDeg * (6 / 10), load = 4\<rparr>])))
       = mset (map stop_id [pick1, pick2, pick3])"
proof -
  have d: "distinct (map stop_id [pick1, pick2, pick3])" by simp
  from partition_property [OF d, of selftest_depot 4] selftest_clarkeWright d
  show ?thesis by simp
qed

lemma set_sort_key_resultOf:
  assumes "clarkeWright depot cs capacity = Some (Inr res)" "r \<in> set res"
  shows "\<exists>w\<in>set (mergePhase depot cs capacity). r = resultOf depot w"
  using assms(2) unfolding clarkeWright_returns [OF assms(1)] by auto

text \<open>
  With exact additions the load of every working route at the end of the merge loop is
  the sum of the demands of its stops, and the loads add up to the demands of the input;
  the same holds of the routes the solver returns.
\<close>

lemma load_conservation_exact:
  "(\<forall>w\<in>set (mergePhase depot cs capacity). R.load w = sum_list (map demand (customers w)))
   \<and> sum_list (map R.load (mergePhase depot cs capacity)) = sum_list (map demand cs)
   \<and> (\<forall>res. clarkeWright depot cs capacity = Some (Inr res) \<longrightarrow>
         (\<forall>r\<in>set res. RouteResult.load r = sum_list (map demand (route r)))
       \<and> sum_list (map RouteResult.load res) = sum_list (map demand cs))"
proof (intro conjI allI impI ballI)
  fix w assume "w \<in> set (mergePhase depot cs capacity)"
  then show "R.load w = sum_list (map demand (customers w))"
    using mergePhase_load_is_sum by blast
next
  show "sum_list (map R.load (mergePhase depot cs capacity)) = sum_list (map demand cs)"
    by (rule mergePhase_total_load)
next
  fix res r
  assume res: "clarkeWright depot cs capacity = Some (Inr res)" and r: "r \<in> set res"
  from set_sort_key_resultOf [OF res r]
  obtain w where w: "w \<in> set (mergePhase depot cs capacity)" "r = resultOf depot w" by blast
  then show "RouteResult.load r = sum_list (map demand (route r))"
    using mergePhase_load_is_sum [of depot cs capacity] by (simp add: resultOf_def)
next
  fix res
  assume res: "clarkeWright depot cs capacity = Some (Inr res)"
  show "sum_list (map RouteResult.load res) = sum_list (map demand cs)"
    unfolding clarkeWright_returns [OF res]
    by (simp only: sum_list_map_sort_key load_resultOf mergePhase_total_load)
qed

text \<open>The merger with the addition as a parameter.\<close>

lemma mergeStepWith_exact: "mergeStepWith (+) capacity routes e = mergeStep capacity routes e"
  by (simp add: mergeStepWith_def mergeStep_def)

lemma mergeLoopWith_exact: "mergeLoopWith (+) capacity routes es = mergeLoop capacity routes es"
  by (induction es arbitrary: routes) (simp_all add: mergeStepWith_exact)

lemma mergePhaseWith_exact: "mergePhaseWith (+) depot cs capacity = mergePhase depot cs capacity"
  by (simp add: mergePhaseWith_def mergePhase_def mergeLoopWith_exact)

lemma clarkeWrightWith_exact: "clarkeWrightWith (+) depot cs capacity = clarkeWright depot cs capacity"
  by (simp add: clarkeWrightWith_def clarkeWright_def mergePhaseWith_exact)













lemma frac_fields [simp]:
  "lat frac1 = 0" "lng frac1 = 1 / 10" "stop_id frac1 = ''1''"
  "lat frac2 = 0" "lng frac2 = 2 / 10" "stop_id frac2 = ''2''"
  "lat frac3 = 0" "lng frac3 = 3 / 10" "stop_id frac3 = ''3''"
  by (simp_all add: frac1_def frac2_def frac3_def)











text \<open>
  With demands that are not negative, a stop whose demand exceeds the capacity stays alone
  in its route: every merge that would take its route fails the capacity check.
\<close>

lemma mergeStep_oversized:
  assumes nonneg: "\<forall>r\<in>set rs. 0 \<le> R.load r"
    and r0: "r0 \<in> set rs" and big: "capacity < R.load r0"
  shows "(\<forall>r\<in>set (mergeStep capacity rs e). 0 \<le> R.load r) \<and> r0 \<in> set (mergeStep capacity rs e)"
proof (cases "mergeStep capacity rs e = rs")
  case True
  with nonneg r0 show ?thesis by simp
next
  case False
  with mergeStep_shape [of capacity rs e]
  obtain ra rb x p q t where cap: "R.load ra + R.load rb \<le> capacity"
    and x: "R.load x = R.load ra + R.load rb"
    and shape: "(rs = p @ ra # q @ rb # t \<and> mergeStep capacity rs e = p @ x # q @ t) \<or>
          (rs = p @ rb # q @ ra # t \<and> mergeStep capacity rs e = p @ q @ x # t)"
    by blast
  from shape have mem: "ra \<in> set rs" "rb \<in> set rs" by auto
  with nonneg have ab: "0 \<le> R.load ra" "0 \<le> R.load rb" by auto
  with x have x0: "0 \<le> R.load x" by simp
  from cap ab big have ne: "r0 \<noteq> ra" "r0 \<noteq> rb" by auto
  from shape show ?thesis
  proof
    assume s: "rs = p @ ra # q @ rb # t \<and> mergeStep capacity rs e = p @ x # q @ t"
    then have "set (mergeStep capacity rs e) = insert x (set p \<union> set q \<union> set t)"
      and "set rs = insert ra (insert rb (set p \<union> set q \<union> set t))" by auto
    with nonneg r0 ne x0 show ?thesis by auto
  next
    assume s: "rs = p @ rb # q @ ra # t \<and> mergeStep capacity rs e = p @ q @ x # t"
    then have "set (mergeStep capacity rs e) = insert x (set p \<union> set q \<union> set t)"
      and "set rs = insert ra (insert rb (set p \<union> set q \<union> set t))" by auto
    with nonneg r0 ne x0 show ?thesis by auto
  qed
qed

lemma mergePhase_oversized:
  assumes "\<forall>c\<in>set cs. 0 \<le> demand c" "c \<in> set cs" "capacity < demand c"
  shows "\<lparr>customers = [c], load = demand c\<rparr> \<in> set (mergePhase depot cs capacity)"
proof -
  let ?r0 = "\<lparr>customers = [c], load = demand c\<rparr>"
  have "(\<forall>r\<in>set (mergePhase depot cs capacity). 0 \<le> R.load r)
      \<and> ?r0 \<in> set (mergePhase depot cs capacity)"
    unfolding mergePhase_def
  proof (rule mergeLoop_invariant)
    show "(\<forall>r\<in>set (initRoutes cs). 0 \<le> R.load r) \<and> ?r0 \<in> set (initRoutes cs)"
      using assms by (auto simp: initRoutes_def)
  next
    fix rs e
    assume "(\<forall>r\<in>set rs. 0 \<le> R.load r) \<and> ?r0 \<in> set rs"
    then show "(\<forall>r\<in>set (mergeStep capacity rs e). 0 \<le> R.load r)
        \<and> ?r0 \<in> set (mergeStep capacity rs e)"
      using mergeStep_oversized [of rs ?r0 capacity e] assms(3) by simp
  qed
  then show ?thesis by simp
qed

lemma clarkeWright_single:
  "clarkeWright depot [c] capacity =
     Some (Inr [\<lparr>route = [c], distanceKm = roundTripKm depot [c], load = demand c\<rparr>])"
  by (simp add: clarkeWright_eq mergePhase_def savings_def savingsGenerated_def sortSavings_def
      initRoutes_def resultOf_def)

text \<open>
  C5: a route with two stops or more is a route formed by a merge (the first routes are
  singletons and a merge concatenates two routes), and its load is within the capacity; a
  route whose load exceeds the capacity is the first singleton route of a stop with that
  demand.  This holds of the working routes at the end of the merge loop and of the
  routes the solver returns.  A single stop is returned as a singleton route whatever
  its demand, and with demands that are not negative a stop over the capacity is still a
  singleton route of the working routes and of the output.
\<close>

theorem capacity_bound:
  "(\<forall>w\<in>set (mergePhase depot cs capacity).
       (2 \<le> length (customers w) \<longrightarrow> R.load w \<le> capacity)
     \<and> (capacity < R.load w \<longrightarrow> (\<exists>c\<in>set cs. customers w = [c] \<and> demand c = R.load w)))
   \<and> (\<forall>res. clarkeWright depot cs capacity = Some (Inr res) \<longrightarrow>
         (\<forall>r\<in>set res.
            (2 \<le> length (route r) \<longrightarrow> RouteResult.load r \<le> capacity)
          \<and> (capacity < RouteResult.load r \<longrightarrow>
               (\<exists>c\<in>set cs. route r = [c] \<and> demand c = RouteResult.load r))))
   \<and> clarkeWright depot [c0] capacity =
       Some (Inr [\<lparr>route = [c0], distanceKm = roundTripKm depot [c0], load = demand c0\<rparr>])
   \<and> ((\<forall>c\<in>set cs. 0 \<le> demand c) \<longrightarrow>
        (\<forall>c\<in>set cs. capacity < demand c \<longrightarrow>
           \<lparr>customers = [c], load = demand c\<rparr> \<in> set (mergePhase depot cs capacity)
         \<and> (\<forall>res. clarkeWright depot cs capacity = Some (Inr res) \<longrightarrow>
               (\<exists>r\<in>set res. route r = [c] \<and> RouteResult.load r = demand c))))"
proof -
  have w: "(2 \<le> length (customers w) \<longrightarrow> R.load w \<le> capacity)
     \<and> (capacity < R.load w \<longrightarrow> (\<exists>c\<in>set cs. customers w = [c] \<and> demand c = R.load w))"
    if "w \<in> set (mergePhase depot cs capacity)" for w
    using mergePhase_capacity [of depot cs capacity] that by fastforce
  have r: "(2 \<le> length (route r) \<longrightarrow> RouteResult.load r \<le> capacity)
          \<and> (capacity < RouteResult.load r \<longrightarrow>
               (\<exists>c\<in>set cs. route r = [c] \<and> demand c = RouteResult.load r))"
    if res: "clarkeWright depot cs capacity = Some (Inr res)" and "r \<in> set res" for res r
  proof -
    from set_sort_key_resultOf [OF that]
    obtain v where v: "v \<in> set (mergePhase depot cs capacity)" "r = resultOf depot v" by blast
    from w [OF v(1)] show ?thesis by (simp add: v(2) resultOf_def)
  qed
  have o: "\<lparr>customers = [c], load = demand c\<rparr> \<in> set (mergePhase depot cs capacity)
         \<and> (\<forall>res. clarkeWright depot cs capacity = Some (Inr res) \<longrightarrow>
               (\<exists>r\<in>set res. route r = [c] \<and> RouteResult.load r = demand c))"
    if "\<forall>c\<in>set cs. 0 \<le> demand c" "c \<in> set cs" "capacity < demand c" for c
  proof (intro conjI allI impI)
    show m: "\<lparr>customers = [c], load = demand c\<rparr> \<in> set (mergePhase depot cs capacity)"
      using that by (rule mergePhase_oversized)
    fix res assume res: "clarkeWright depot cs capacity = Some (Inr res)"
    have "resultOf depot \<lparr>customers = [c], load = demand c\<rparr> \<in> set res"
      unfolding clarkeWright_returns [OF res] using m by simp
    then show "\<exists>r\<in>set res. route r = [c] \<and> RouteResult.load r = demand c"
      by (intro bexI [of _ "resultOf depot \<lparr>customers = [c], load = demand c\<rparr>"])
         (simp_all add: resultOf_def)
  qed
  from w r o clarkeWright_single [of depot c0 capacity] show ?thesis by blast
qed

lemma selftest_mergePhase_capacity1:
  "mergePhase selftest_depot [pick1, pick2, pick3] 1 =
     [\<lparr>customers = [pick1], load = 2\<rparr>, \<lparr>customers = [pick2], load = 2\<rparr>,
      \<lparr>customers = [pick3], load = 2\<rparr>]"
  by (simp add: mergePhase_def selftest_savings initRoutes_def mergeStep_def
      findRouteAndPos_def findRouteAndPos_from.simps splice1_def Let_def)

lemma selftest_clarkeWright_capacity1:
  "clarkeWright selftest_depot [pick1, pick2, pick3] 1 =
     Some (Inr [\<lparr>route = [pick1], distanceKm = kmPerDeg * (2 / 10), load = 2\<rparr>,
                \<lparr>route = [pick2], distanceKm = kmPerDeg * (4 / 10), load = 2\<rparr>,
                \<lparr>route = [pick3], distanceKm = kmPerDeg * (6 / 10), load = 2\<rparr>])"
  by (simp add: clarkeWright_eq selftest_mergePhase_capacity1 resultOf_def roundTripKm_def
      haversineKm_equator LatLng.truncate_def)

theorem capacity_bound_witness:
  "clarkeWright selftest_depot [pick1, pick2, pick3] 4 =
       Some (Inr [\<lparr>route = [pick1], distanceKm = kmPerDeg * (2 / 10), load = 2\<rparr>,
                  \<lparr>route = [pick2, pick3], distanceKm = kmPerDeg * (6 / 10), load = 4\<rparr>])
   \<and> 2 \<le> length [pick2, pick3] \<and> (4 :: real) \<le> 4
   \<and> 0 \<le> demand pick1 \<and> 0 \<le> demand pick2 \<and> 0 \<le> demand pick3 \<and> 1 < demand pick1
   \<and> \<lparr>customers = [pick1], load = demand pick1\<rparr>
         \<in> set (mergePhase selftest_depot [pick1, pick2, pick3] 1)
   \<and> clarkeWright selftest_depot [pick1, pick2, pick3] 1 =
       Some (Inr [\<lparr>route = [pick1], distanceKm = kmPerDeg * (2 / 10), load = 2\<rparr>,
                  \<lparr>route = [pick2], distanceKm = kmPerDeg * (4 / 10), load = 2\<rparr>,
                  \<lparr>route = [pick3], distanceKm = kmPerDeg * (6 / 10), load = 2\<rparr>])"
  using capacity_bound [of selftest_depot "[pick1, pick2, pick3]" 4 pick1]
    capacity_bound [of selftest_depot "[pick1, pick2, pick3]" 1 pick1]
    selftest_clarkeWright selftest_clarkeWright_capacity1
  by simp

subsection \<open>The merge loop and the savings values\<close>

lemma mergeStep_pair:
  "sav_i e1 = sav_i e2 \<Longrightarrow> sav_j e1 = sav_j e2 \<Longrightarrow>
   mergeStep capacity rs e1 = mergeStep capacity rs e2"
  by (simp add: mergeStep_def)

lemma mergeLoop_pairs:
  "map (\<lambda>e. (sav_i e, sav_j e)) sv1 = map (\<lambda>e. (sav_i e, sav_j e)) sv2 \<Longrightarrow>
   mergeLoop capacity rs sv1 = mergeLoop capacity rs sv2"
proof (induction sv1 arbitrary: sv2 rs)
  case Nil
  then show ?case by simp
next
  case (Cons e1 sv1)
  then obtain e2 sv2' where sv2: "sv2 = e2 # sv2'" by (cases sv2) auto
  with Cons.prems have e: "sav_i e1 = sav_i e2" "sav_j e1 = sav_j e2"
    and rest: "map (\<lambda>e. (sav_i e, sav_j e)) sv1 = map (\<lambda>e. (sav_i e, sav_j e)) sv2'"
    by simp_all
  show ?case
    unfolding sv2 using Cons.IH [OF rest] mergeStep_pair [OF e] by simp
qed

lemma mergeStep_merges:
  assumes "findRouteAndPos rs (sav_i e) = Some fi" "findRouteAndPos rs (sav_j e) = Some fj"
    and "rIdx fi \<noteq> rIdx fj" "atStart fi = Some x" "atStart fj = Some y"
    and "R.load (rs ! rIdx fi) + R.load (rs ! rIdx fj) \<le> capacity"
  shows "mergeStep capacity rs e =
      splice1 (rs[rIdx fi :=
         \<lparr>customers = (if x then rev (customers (rs ! rIdx fi)) else customers (rs ! rIdx fi))
                       @ (if y then customers (rs ! rIdx fj) else rev (customers (rs ! rIdx fj))),
          load = R.load (rs ! rIdx fi) + R.load (rs ! rIdx fj)\<rparr>]) (rIdx fj)"
    and "length (mergeStep capacity rs e) = length rs - 1"
proof -
  show m: "mergeStep capacity rs e =
      splice1 (rs[rIdx fi :=
         \<lparr>customers = (if x then rev (customers (rs ! rIdx fi)) else customers (rs ! rIdx fi))
                       @ (if y then customers (rs ! rIdx fj) else rev (customers (rs ! rIdx fj))),
          load = R.load (rs ! rIdx fi) + R.load (rs ! rIdx fj)\<rparr>]) (rIdx fj)"
    using assms by (simp add: mergeStep_def Let_def)
  show "length (mergeStep capacity rs e) = length rs - 1"
    unfolding m using findRouteAndPos_bound [OF assms(2)] by (simp add: length_splice1)
qed

text \<open>
  C10: the merge loop reads the pair \<open>(i, j)\<close> of each savings entry and never the value
  \<open>s\<close>: two savings sequences with the same pairs in the same order give the same
  routes; and an entry with a negative \<open>s\<close> whose two stops are ends of different routes
  with a joint load within the capacity is merged, which takes one route away.
\<close>

theorem merge_ignores_saving_value:
  "(map (\<lambda>e. (sav_i e, sav_j e)) sv1 = map (\<lambda>e. (sav_i e, sav_j e)) sv2 \<longrightarrow>
      mergeLoop capacity rs sv1 = mergeLoop capacity rs sv2)
   \<and> (sav_s e < 0 \<and> findRouteAndPos rs (sav_i e) = Some fi
        \<and> findRouteAndPos rs (sav_j e) = Some fj \<and> rIdx fi \<noteq> rIdx fj
        \<and> atStart fi = Some x \<and> atStart fj = Some y
        \<and> R.load (rs ! rIdx fi) + R.load (rs ! rIdx fj) \<le> capacity \<longrightarrow>
      mergeStep capacity rs e =
        splice1 (rs[rIdx fi :=
           \<lparr>customers = (if x then rev (customers (rs ! rIdx fi)) else customers (rs ! rIdx fi))
                         @ (if y then customers (rs ! rIdx fj) else rev (customers (rs ! rIdx fj))),
            load = R.load (rs ! rIdx fi) + R.load (rs ! rIdx fj)\<rparr>]) (rIdx fj)
      \<and> length (mergeStep capacity rs e) = length rs - 1)"
  using mergeLoop_pairs [of sv1 sv2 capacity rs] mergeStep_merges [of rs e fi fj x y capacity]
  by blast

lemma find_pick12:
  "findRouteAndPos (initRoutes [pick1, pick2]) pick1 = Some \<lparr>rIdx = 0, atStart = Some True\<rparr>"
  "findRouteAndPos (initRoutes [pick1, pick2]) pick2 = Some \<lparr>rIdx = 1, atStart = Some True\<rparr>"
  by (simp_all add: initRoutes_def findRouteAndPos_def findRouteAndPos_from.simps Let_def)

theorem merge_ignores_saving_value_witness:
  "mergeLoop 4 (initRoutes [pick1, pick2]) [\<lparr>sav_i = pick1, sav_j = pick2, sav_s = - 1\<rparr>]
     = mergeLoop 4 (initRoutes [pick1, pick2]) [\<lparr>sav_i = pick1, sav_j = pick2, sav_s = 5\<rparr>]
   \<and> sav_s \<lparr>sav_i = pick1, sav_j = pick2, sav_s = - 1\<rparr> < 0
   \<and> mergeStep 4 (initRoutes [pick1, pick2]) \<lparr>sav_i = pick1, sav_j = pick2, sav_s = - 1\<rparr>
       = [\<lparr>customers = [pick1, pick2], load = 4\<rparr>]"
  using merge_ignores_saving_value [of "[\<lparr>sav_i = pick1, sav_j = pick2, sav_s = - 1\<rparr>]"
      "[\<lparr>sav_i = pick1, sav_j = pick2, sav_s = 5\<rparr>]" 4 "initRoutes [pick1, pick2]"
      "\<lparr>sav_i = pick1, sav_j = pick2, sav_s = - 1\<rparr>"
      "\<lparr>rIdx = 0, atStart = Some True\<rparr>" "\<lparr>rIdx = 1, atStart = Some True\<rparr>" True True]
    find_pick12
  by (auto simp: initRoutes_def splice1_def)

subsection \<open>Order of the savings\<close>

lemma filter_decomp:
  "filter P ys = us @ x # vs \<Longrightarrow>
   \<exists>ys1 ys2. ys = ys1 @ x # ys2 \<and> filter P ys1 = us \<and> filter P ys2 = vs"
proof (induction ys arbitrary: us)
  case Nil
  then show ?case by simp
next
  case (Cons y ys)
  show ?case
  proof (cases "P y")
    case False
    with Cons.prems have "filter P ys = us @ x # vs" by simp
    from Cons.IH [OF this] obtain ys1 ys2
      where "ys = ys1 @ x # ys2" "filter P ys1 = us" "filter P ys2 = vs" by blast
    with False have "y # ys = (y # ys1) @ x # ys2 \<and> filter P (y # ys1) = us \<and> filter P ys2 = vs"
      by simp
    then show ?thesis by blast
  next
    case True
    with Cons.prems have eq: "y # filter P ys = us @ x # vs" by simp
    show ?thesis
    proof (cases us)
      case Nil
      with eq have "y = x" "filter P ys = vs" by simp_all
      then have "y # ys = [] @ x # ys \<and> filter P [] = us \<and> filter P ys = vs"
        using Nil by simp
      then show ?thesis by blast
    next
      case (Cons u us')
      with eq have "u = y" "filter P ys = us' @ x # vs" by simp_all
      from Cons.IH [OF this(2)] obtain ys1 ys2
        where "ys = ys1 @ x # ys2" "filter P ys1 = us'" "filter P ys2 = vs" by blast
      with True Cons \<open>u = y\<close>
      have "y # ys = (y # ys1) @ x # ys2 \<and> filter P (y # ys1) = us \<and> filter P ys2 = vs"
        by simp
      then show ?thesis by blast
    qed
  qed
qed

text \<open>Two elements with the same key keep their order under a stable sort.\<close>

lemma stable_keeps_order:
  assumes st: "filter (\<lambda>e. f e = f x) sv = filter (\<lambda>e. f e = f x) gen"
    and gen: "gen = as @ x # bs @ y # cs" and eq: "f x = f y"
  shows "\<exists>as' bs' cs'. sv = as' @ x # bs' @ y # cs'"
proof -
  let ?P = "\<lambda>e. f e = f x"
  have "filter ?P sv = filter ?P as @ x # (filter ?P bs @ y # filter ?P cs)"
    unfolding st gen using eq by simp
  from filter_decomp [OF this] obtain as' rest
    where sv: "sv = as' @ x # rest" and rest: "filter ?P rest = filter ?P bs @ y # filter ?P cs"
    by blast
  from filter_decomp [OF rest] obtain bs' cs' where "rest = bs' @ y # cs'" by blast
  with sv show ?thesis by blast
qed

lemma savingsGenerated_pairs:
  "map (\<lambda>e. (sav_i e, sav_j e)) (savingsGenerated depot cs) = pairsInOrder cs"
  by (simp add: savingsGenerated_def Let_def comp_def split_def)

lemma savings_descending:
  "sorted_wrt (\<lambda>a b. sav_s b \<le> sav_s a) (savings depot cs)"
proof -
  have "sorted (map (\<lambda>e. - sav_s e) (savings depot cs))"
    by (simp add: savings_def sortSavings_def)
  then show ?thesis by (simp add: sorted_map)
qed

lemma savings_stable:
  "filter (\<lambda>e. sav_s e = v) (savings depot cs) = filter (\<lambda>e. sav_s e = v) (savingsGenerated depot cs)"
  using sort_key_stable [of "\<lambda>e. - sav_s e" "- v" "savingsGenerated depot cs"]
  by (simp add: savings_def sortSavings_def)

text \<open>
  Where every \<open>s\<close> is a number: the merge loop runs over \<open>savings\<close>, which is the
  generated sequence (the pairs in the order of the two loops) sorted by descending \<open>s\<close>;
  entries with the same \<open>s\<close> stand in it in their generated order.  The sort is descending
  and stable whatever numbers the entries carry.
\<close>

lemma sortSavings_descending_stable:
  "mset (sortSavings sv) = mset sv
   \<and> sorted_wrt (\<lambda>a b. sav_s b \<le> sav_s a) (sortSavings sv)
   \<and> filter (\<lambda>e. sav_s e = v) (sortSavings sv) = filter (\<lambda>e. sav_s e = v) sv"
proof -
  have "sorted (map (\<lambda>e. - sav_s e) (sortSavings sv))" by (simp add: sortSavings_def)
  then have "sorted_wrt (\<lambda>a b. sav_s b \<le> sav_s a) (sortSavings sv)" by (simp add: sorted_map)
  moreover have "filter (\<lambda>e. sav_s e = v) (sortSavings sv) = filter (\<lambda>e. sav_s e = v) sv"
    using sort_key_stable [of "\<lambda>e. - sav_s e" "- v" sv] by (simp add: sortSavings_def)
  ultimately show ?thesis by (simp add: sortSavings_def)
qed


lemma savings_order_of_numbers:
  "mergePhase depot cs capacity = mergeLoop capacity (initRoutes cs) (savings depot cs)
   \<and> map (\<lambda>e. (sav_i e, sav_j e)) (savingsGenerated depot cs) = pairsInOrder cs
   \<and> mset (savings depot cs) = mset (savingsGenerated depot cs)
   \<and> sorted_wrt (\<lambda>a b. sav_s b \<le> sav_s a) (savings depot cs)
   \<and> (\<forall>v. filter (\<lambda>e. sav_s e = v) (savings depot cs)
          = filter (\<lambda>e. sav_s e = v) (savingsGenerated depot cs))
   \<and> (\<forall>x y before between behind.
         savingsGenerated depot cs = before @ x # between @ y # behind \<and> sav_s x = sav_s y \<longrightarrow>
         (\<exists>before' between' behind'. savings depot cs = before' @ x # between' @ y # behind'))"
proof (intro conjI allI impI)
  show "mergePhase depot cs capacity = mergeLoop capacity (initRoutes cs) (savings depot cs)"
    by (simp add: mergePhase_def)
  show "map (\<lambda>e. (sav_i e, sav_j e)) (savingsGenerated depot cs) = pairsInOrder cs"
    by (rule savingsGenerated_pairs)
  show "mset (savings depot cs) = mset (savingsGenerated depot cs)"
    by (simp add: savings_def sortSavings_def)
  show "sorted_wrt (\<lambda>a b. sav_s b \<le> sav_s a) (savings depot cs)"
    by (rule savings_descending)
  show "filter (\<lambda>e. sav_s e = v) (savings depot cs)
          = filter (\<lambda>e. sav_s e = v) (savingsGenerated depot cs)" for v
    by (rule savings_stable)
  fix x y before between behind
  assume a: "savingsGenerated depot cs = before @ x # between @ y # behind \<and> sav_s x = sav_s y"
  from a have gen: "savingsGenerated depot cs = before @ x # between @ y # behind"
    and eq: "sav_s x = sav_s y" by simp_all
  show "\<exists>before' between' behind'. savings depot cs = before' @ x # between' @ y # behind'"
    by (rule stable_keeps_order [where f = sav_s, OF savings_stable gen eq])
qed


subsection \<open>Four stops on a line\<close>

lemma line_fields [simp]:
  "lat stopA = 0" "lng stopA = 1" "stop_id stopA = ''A''" "demand stopA = 1"
  "lat stopB = 0" "lng stopB = 2" "stop_id stopB = ''B''" "demand stopB = 1"
  "lat stopC = 0" "lng stopC = 3" "stop_id stopC = ''C''" "demand stopC = 1"
  "lat stopD = 0" "lng stopD = 10" "stop_id stopD = ''D''" "demand stopD = 1"
  "lat line_depot = 0" "lng line_depot = 0"
  by (simp_all add: stopA_def stopB_def stopC_def stopD_def line_depot_def)

lemma kmPerDeg_tolerance:
  "a + 1 \<le> b \<Longrightarrow> kmPerDeg * a + 1 / 10 ^ 9 < kmPerDeg * b"
proof -
  assume "a + 1 \<le> b"
  then have "kmPerDeg * (a + 1) \<le> kmPerDeg * b" by simp
  moreover have "(1 :: real) / 10 ^ 9 < kmPerDeg" using kmPerDeg_gt by simp
  ultimately show ?thesis by (simp add: algebra_simps)
qed

lemma node_line [simp]:
  "node line_depot [a, b, c, d] (- 1) = Some (LatLng.truncate line_depot)"
  "node line_depot [a, b, c, d] 0 = Some (LatLng.truncate a)"
  "node line_depot [a, b, c, d] 1 = Some (LatLng.truncate b)"
  "node line_depot [a, b, c, d] 2 = Some (LatLng.truncate c)"
  "node line_depot [a, b, c, d] 3 = Some (LatLng.truncate d)"
  "node line_depot [a, b, c, d] 4 = Some (LatLng.truncate line_depot)"
  "node line_depot [a, b, c, d] 5 = None"
  by (simp_all add: node_def)

lemma truncate_fields [simp]:
  "lat (LatLng.truncate p) = lat p" "lng (LatLng.truncate p) = lng p"
  by (simp_all add: LatLng.truncate_def)

lemma line_before_01:
  "twoOptBefore line_depot [stopA, stopB, stopC, stopD] 0 1 = Inr (kmPerDeg * 10)"
  by (simp add: twoOptBefore_def distWithDepot_def Let_def haversineKm_equator)

lemma line_two_edges_01:
  "twoOptAfter line_depot [stopA, stopB, stopC, stopD] 0 1 = Inr (kmPerDeg * 2)"
  by (simp add: twoOptAfter_def haversineKm_equator)

lemma line_before_03:
  "twoOptBefore line_depot [stopA, stopB, stopC, stopD] 0 3 = Inl TypeError"
  by (simp add: twoOptBefore_last)

lemma line_candidate_01:
  "candidate [stopA, stopB, stopC, stopD] 0 1 = [stopB, stopA, stopC, stopD]"
  by (simp add: candidate_def slice_def)

lemma line_after_01:
  "twoOptAfter line_depot [stopB, stopA, stopC, stopD] 0 1 = Inr (kmPerDeg * 4)"
  by (simp add: twoOptAfter_def haversineKm_equator)

lemma line_compare_01:
  "twoOptCompare line_depot [stopA, stopB, stopC, stopD] 0 1
     = Inr ([stopB, stopA, stopC, stopD], True)"
  unfolding twoOptCompare_def line_before_01 line_candidate_01 line_after_01
  using kmPerDeg_tolerance [of 4 10] by simp

lemma line_roundTrip:
  "roundTripKm line_depot [stopA, stopB, stopC, stopD] = kmPerDeg * 20"
  "roundTripKm line_depot [stopB, stopA, stopC, stopD] = kmPerDeg * 22"
  by (simp_all add: roundTripKm_def haversineKm_equator)

lemma line_savings:
  "savings line_depot [stopA, stopB, stopC, stopD] =
    [\<lparr>sav_i = stopC, sav_j = stopD, sav_s = kmPerDeg * 6\<rparr>,
     \<lparr>sav_i = stopB, sav_j = stopC, sav_s = kmPerDeg * 4\<rparr>,
     \<lparr>sav_i = stopB, sav_j = stopD, sav_s = kmPerDeg * 4\<rparr>,
     \<lparr>sav_i = stopA, sav_j = stopB, sav_s = kmPerDeg * 2\<rparr>,
     \<lparr>sav_i = stopA, sav_j = stopC, sav_s = kmPerDeg * 2\<rparr>,
     \<lparr>sav_i = stopA, sav_j = stopD, sav_s = kmPerDeg * 2\<rparr>]"
  by (simp add: savings_def sortSavings_def savingsGenerated_def d0_table_def dij_table_def
      idKey_def Let_def haversineKm_equator)

lemma line_mergePhase:
  "mergePhase line_depot [stopA, stopB, stopC, stopD] 10 =
     [\<lparr>customers = [stopA, stopB, stopC, stopD], load = 4\<rparr>]"
  by (simp add: mergePhase_def line_savings initRoutes_def mergeStep_def
      findRouteAndPos_def findRouteAndPos_from.simps splice1_def Let_def)

text \<open>When \<open>twoOpt\<close> returns a route, it is the route it was given.\<close>

lemma twoOpt_returns_input: "twoOpt depot seq = Some (Inr r) \<Longrightarrow> r = seq"
  by (simp add: twoOpt_eq split: if_splits)

lemma twoOpt_four_throws: "4 \<le> length seq \<Longrightarrow> twoOpt depot seq = Some (Inl TypeError)"
  by (simp add: twoOpt_eq)

text \<open>The solver always ends: it returns or it throws.\<close>

lemma clarkeWright_ends: "\<exists>r. clarkeWright depot cs capacity = Some r"
  by (simp add: clarkeWright_eq)

text \<open>
  C2, on the depot at 0 and the route A, B, C, D at the longitudes 1, 2, 3 and 10 of the
  equator: at \<open>(i, k) = (0, 1)\<close> the value \<open>before\<close> is the sum of the four legs
  depot-A, A-B, B-C and C-D (10 degrees), not of the two removed legs depot-A and B-C
  (2 degrees), which is what the two-edge sum of \<open>after\<close> gives on the same sequence; at
  the last \<open>k\<close> the computation of \<open>before\<close> throws.
\<close>

theorem before_is_not_the_two_edge_sum:
  "twoOptBefore line_depot [stopA, stopB, stopC, stopD] 0 1 = Inr (kmPerDeg * 10)
   \<and> twoOptAfter line_depot [stopA, stopB, stopC, stopD] 0 1 = Inr (kmPerDeg * 2)
   \<and> twoOptBefore line_depot [stopA, stopB, stopC, stopD] 0 1
       \<noteq> twoOptAfter line_depot [stopA, stopB, stopC, stopD] 0 1
   \<and> twoOptBefore line_depot [stopA, stopB, stopC, stopD] 0 3 = Inl TypeError"
  unfolding line_before_01 line_two_edges_01 line_before_03 by simp

text \<open>
  C1, on the same route: the comparison at \<open>(0, 1)\<close> accepts the candidate B, A, C, D,
  whose round trip (22 degrees) is longer than that of the current route (20 degrees); and
  \<open>twoOpt\<close> does not return a route for it, it throws.
\<close>

theorem accepted_swap_lengthens_route:
  "twoOptCompare line_depot [stopA, stopB, stopC, stopD] 0 1
     = Inr ([stopB, stopA, stopC, stopD], True)
   \<and> roundTripKm line_depot [stopA, stopB, stopC, stopD]
       < roundTripKm line_depot [stopB, stopA, stopC, stopD]
   \<and> twoOpt line_depot [stopA, stopB, stopC, stopD] = Some (Inl TypeError)"
  unfolding line_compare_01 line_roundTrip by (simp add: twoOpt_four_throws)

text \<open>
  C3, on the four stops with demand 1 and capacity 10: the merge loop joins them into
  one route, and the solver throws instead of returning a result.
\<close>

theorem solver_throws_on_four_stop_route:
  "mergePhase line_depot [stopA, stopB, stopC, stopD] 10
     = [\<lparr>customers = [stopA, stopB, stopC, stopD], load = 4\<rparr>]
   \<and> clarkeWright line_depot [stopA, stopB, stopC, stopD] 10 = Some (Inl TypeError)"
  by (simp add: clarkeWright_eq line_mergePhase)

subsection \<open>CSV round trip\<close>

lemma splitFields_nonempty: "splitFields s \<noteq> []"
  by (induction s) (auto split: list.splits)

lemma splitFields_clean:
  "COMMA \<notin> set f \<Longrightarrow> TAB \<notin> set f \<Longrightarrow> splitFields (f @ COMMA # rest) = f # splitFields rest"
  by (induction f) auto

lemma splitFields_single:
  "COMMA \<notin> set f \<Longrightarrow> TAB \<notin> set f \<Longrightarrow> splitFields f = [f]"
  by (induction f) auto

lemma splitLines_single: "LF \<notin> set l \<Longrightarrow> splitLines l = [l]"
  by (induction l rule: splitLines.induct) auto

lemma splitLines_clean:
  "LF \<notin> set l \<Longrightarrow> l = [] \<or> last l \<noteq> CR \<Longrightarrow> splitLines (l @ LF # rest) = l # splitLines rest"
proof (induction l)
  case Nil
  show ?case by (cases rest) simp_all
next
  case (Cons c l)
  from Cons.prems have c: "c \<noteq> LF" and l: "LF \<notin> set l" by auto
  obtain d ds where tl: "l @ LF # rest = d # ds" by (cases "l @ LF # rest") auto
  have no: "\<not> (c = CR \<and> d = LF)"
  proof
    assume a: "c = CR \<and> d = LF"
    with tl l have "l = []" by (cases l) auto
    with a Cons.prems(2) show False by simp
  qed
  have l': "l = [] \<or> last l \<noteq> CR" using Cons.prems(2) by (cases l) auto
  have ih: "splitLines (d # ds) = l # splitLines rest"
    using Cons.IH [OF l l'] unfolding tl .
  have "splitLines (c # d # ds) = (c # l) # splitLines rest"
    using c no ih by simp
  then show ?case unfolding append_Cons tl .
qed

lemma splitLines_join:
  assumes "\<forall>l\<in>set (x # xs). LF \<notin> set l \<and> (l = [] \<or> last l \<noteq> CR)"
  shows "splitLines (joinWith [LF] (x # xs)) = x # xs"
  using assms
proof (induction xs arbitrary: x)
  case Nil
  then show ?case by (simp add: splitLines_single)
next
  case (Cons y ys)
  have "splitLines (x @ LF # joinWith [LF] (y # ys)) = x # splitLines (joinWith [LF] (y # ys))"
    using Cons.prems by (intro splitLines_clean) auto
  with Cons.IH [of y] Cons.prems show ?case by simp
qed

lemma set_doubleQuotes: "set (doubleQuotes s) \<subseteq> insert DQUOTE (set s)"
  by (auto simp: doubleQuotes_def split: if_splits)

lemma esc_shape: "\<exists>body. esc numberToString v = DQUOTE # body @ [DQUOTE]"
  by (simp add: esc_def)

lemma set_esc: "set (esc numberToString v) \<subseteq> insert DQUOTE (set (cellString numberToString v))"
  using set_doubleQuotes [of "cellString numberToString v"] by (auto simp: esc_def)

lemma special_chars [simp]:
  "DQUOTE \<noteq> LF" "DQUOTE \<noteq> COMMA" "DQUOTE \<noteq> TAB" "DQUOTE \<noteq> CR" "\<not> isWhite DQUOTE"
  "\<not> isDigit DQUOTE" "DQUOTE \<noteq> CHR ''-''" "DQUOTE \<noteq> CHR ''+''" "DQUOTE \<noteq> CHR ''.''"
  "DQUOTE \<noteq> CHR ''I''" "COMMA \<noteq> LF" "COMMA \<noteq> TAB" "LF \<noteq> COMMA" "TAB \<noteq> COMMA"
  by (simp_all add: DQUOTE_def LF_def COMMA_def TAB_def CR_def isWhite_def isDigit_def)

text \<open>A string that starts with a double quote is not a number for \<^verbatim>\<open>parseFloat\<close>.\<close>

lemma parseFloat_quoted: "parseFloat (Some (DQUOTE # x)) = NaN"
  by (simp add: parseFloat_def parseDecimal_def parseSign_def Let_def)

lemma joinWith_Cons: "xs \<noteq> [] \<Longrightarrow> joinWith sep (x # xs) = x @ sep @ joinWith sep xs"
  by (cases xs) simp_all

lemma joinWith_nonempty: "x \<noteq> [] \<Longrightarrow> joinWith sep (x # xs) \<noteq> []"
  by (cases xs) simp_all

lemma exportCSV_text:
  "exportCSV numberToString stops = joinWith [LF] (headerText # map (rowText numberToString) stops)"
proof (cases stops)
  case Nil
  then show ?thesis
    by (simp add: exportCSV_def toCSV_def headerText_def COMMA_def Let_def)
next
  case (Cons s ss)
  have body: "joinWith [LF] (map (rowText numberToString) (s # ss)) \<noteq> []"
    by (simp add: joinWith_nonempty rowText_def esc_def)
  have "exportCSV numberToString stops
      = joinWith [LF] (filter (\<lambda>s. s \<noteq> [])
          [headerText, joinWith [LF] (map (rowText numberToString) stops)])"
    by (simp add: exportCSV_def toCSV_def headerText_def COMMA_def rowText_def [abs_def]
        comp_def Let_def)
  also have "\<dots> = headerText @ [LF] @ joinWith [LF] (map (rowText numberToString) stops)"
    using body Cons by (simp add: headerText_def)
  also have "\<dots> = joinWith [LF] (headerText # map (rowText numberToString) stops)"
    using Cons by (simp add: joinWith_Cons)
  finally show ?thesis .
qed

lemma header_columns:
  "map (\<lambda>h. toLowerCase (trim h)) (splitFields headerText) = [''id'', ''name'', ''lat'', ''lng'', ''demand'']"
  by code_simp

lemma header_line: "LF \<notin> set headerText" "headerText \<noteq> []" "last headerText \<noteq> CR"
  by code_simp+

lemma esc_clean:
  assumes "c \<notin> set (cellString numberToString v)" "c \<noteq> DQUOTE"
  shows "c \<notin> set (esc numberToString v)"
  using set_esc [of numberToString v] assms by auto

lemma rowText_fields:
  assumes "cleanFields numberToString s"
  shows "splitFields (rowText numberToString s) =
     [esc numberToString (Some (CStr (stop_id s))), esc numberToString (Some (CStr (name s))),
      esc numberToString (Some (CNum (lat s))), esc numberToString (Some (CNum (lng s))),
      esc numberToString (Some (CNum (demand s)))]"
proof -
  have c: "COMMA \<notin> set (esc numberToString v) \<and> TAB \<notin> set (esc numberToString v)"
    if "COMMA \<notin> set (cellString numberToString v)" "TAB \<notin> set (cellString numberToString v)" for v
    using that special_chars(2,3) by (metis esc_clean)
  have f: "COMMA \<notin> set (cellString numberToString (Some (CStr (stop_id s))))"
      "TAB \<notin> set (cellString numberToString (Some (CStr (stop_id s))))"
      "COMMA \<notin> set (cellString numberToString (Some (CStr (name s))))"
      "TAB \<notin> set (cellString numberToString (Some (CStr (name s))))"
      "COMMA \<notin> set (cellString numberToString (Some (CNum (lat s))))"
      "TAB \<notin> set (cellString numberToString (Some (CNum (lat s))))"
      "COMMA \<notin> set (cellString numberToString (Some (CNum (lng s))))"
      "TAB \<notin> set (cellString numberToString (Some (CNum (lng s))))"
      "COMMA \<notin> set (cellString numberToString (Some (CNum (demand s))))"
      "TAB \<notin> set (cellString numberToString (Some (CNum (demand s))))"
    using assms by (simp_all add: cleanFields_def cellString_def)
  show ?thesis
    unfolding rowText_def
    using c [OF f(1,2)] c [OF f(3,4)] c [OF f(5,6)] c [OF f(7,8)] c [OF f(9,10)]
    by (simp add: splitFields_clean splitFields_single)
qed

lemma rowText_line:
  assumes "cleanFields numberToString s"
  shows "LF \<notin> set (rowText numberToString s)" "rowText numberToString s \<noteq> []"
    "last (rowText numberToString s) \<noteq> CR"
proof -
  have c: "LF \<notin> set (esc numberToString v)"
    if "LF \<notin> set (cellString numberToString v)" for v
    using that special_chars(1) by (metis esc_clean)
  have f: "LF \<notin> set (cellString numberToString (Some (CStr (stop_id s))))"
      "LF \<notin> set (cellString numberToString (Some (CStr (name s))))"
      "LF \<notin> set (cellString numberToString (Some (CNum (lat s))))"
      "LF \<notin> set (cellString numberToString (Some (CNum (lng s))))"
      "LF \<notin> set (cellString numberToString (Some (CNum (demand s))))"
    using assms by (simp_all add: cleanFields_def cellString_def)
  show "LF \<notin> set (rowText numberToString s)"
    unfolding rowText_def using c [OF f(1)] c [OF f(2)] c [OF f(3)] c [OF f(4)] c [OF f(5)]
    by simp
  show "rowText numberToString s \<noteq> []" by (simp add: rowText_def esc_def)
  show "last (rowText numberToString s) \<noteq> CR" by (simp add: rowText_def esc_def)
qed

lemma rowText_lat:
  assumes "cleanFields numberToString s"
  shows "parseFloat (elemAt (splitFields (rowText numberToString s)) 2) = NaN"
proof -
  obtain body where "esc numberToString (Some (CNum (lat s))) = DQUOTE # body @ [DQUOTE]"
    using esc_shape by blast
  then show ?thesis
    by (simp add: rowText_fields [OF assms] elemAt_def parseFloat_quoted)
qed

text \<open>
  Whatever the conversion of numbers to strings: when no field of the stops has a line
  feed, a comma or a tab, the re-import of the exported text has no stop at all.
\<close>

lemma reimport_drops_every_row:
  assumes "\<forall>s\<in>set stops. cleanFields numberToString s"
  shows "importCSV (exportCSV numberToString stops) = Inr []"
proof -
  let ?rows = "map (rowText numberToString) stops"
  have lines: "splitLines (exportCSV numberToString stops) = headerText # ?rows"
    unfolding exportCSV_text
    using assms header_line rowText_line by (intro splitLines_join) auto
  have ne: "filter (\<lambda>l. l \<noteq> []) (headerText # ?rows) = headerText # ?rows"
    using assms header_line(2) rowText_line(2) by (auto simp: filter_id_conv)
  have idx: "findIndex (\<lambda>c. c = ''lat'') [''id'', ''name'', ''lat'', ''lng'', ''demand''] = 2"
    by simp
  have drop: "\<not> isFinite (parseFloat (elemAt (splitFields line) 2))" if "line \<in> set ?rows" for line
    using that assms rowText_lat by (auto simp: isFinite_def)
  show ?thesis
    unfolding importCSV_def lines ne list.case header_columns Let_def idx
    using drop by (auto simp: filter_empty_conv in_set_enumerate_eq split_def)
qed

lemma sample_export:
  "exportCSV naturalToString [sampleA, sampleB] =
     ''ID,Name,Lat,Lng,Demand'' @ [LF]
     @ [DQUOTE] @ ''A'' @ [DQUOTE, COMMA, DQUOTE] @ ''A'' @ [DQUOTE, COMMA, DQUOTE] @ ''1''
     @ [DQUOTE, COMMA, DQUOTE] @ ''2'' @ [DQUOTE, COMMA, DQUOTE] @ ''3'' @ [DQUOTE] @ [LF]
     @ [DQUOTE] @ ''B'' @ [DQUOTE, COMMA, DQUOTE] @ ''B'' @ [DQUOTE, COMMA, DQUOTE] @ ''4''
     @ [DQUOTE, COMMA, DQUOTE] @ ''5'' @ [DQUOTE, COMMA, DQUOTE] @ ''6'' @ [DQUOTE]"
  by code_simp

text \<open>
  C7, on the two sample rows: the exported text quotes every field, the import splits
  at commas and keeps the quotes, so \<^verbatim>\<open>parseFloat\<close> gives NaN for every latitude and the
  filter drops every row: the re-import is the empty list, not the two stops.
\<close>

theorem reimport_of_export_is_empty:
  "importCSV (exportCSV naturalToString [sampleA, sampleB]) = Inr []"
  by code_simp

lemma sample_import_plain:
  "importCSV (''ID,Name,Lat,Lng,Demand'' @ [LF] @ ''A,A,1,2,3'' @ [LF] @ ''B,B,4,5,6'') =
    Inr [\<lparr>imp_id = ''A'', imp_name = ''A'', imp_lat = Finite 1, imp_lng = Finite 2,
            imp_demand = Finite 3\<rparr>,
         \<lparr>imp_id = ''B'', imp_name = ''B'', imp_lat = Finite 4, imp_lng = Finite 5,
            imp_demand = Finite 6\<rparr>]"
  by code_simp

subsection \<open>Dictionary lookups and the number of merges\<close>

text \<open>Every key that the savings read is in its dictionary.\<close>

lemma fold_d0_dom:
  "dom (fold (\<lambda>c m. m(stop_id c \<mapsto> haversineKm depot c)) cs m0) = dom m0 \<union> stop_id ` set cs"
  by (induction cs arbitrary: m0) auto

lemma d0_table_defined: "a \<in> set cs \<Longrightarrow> d0_table depot cs (stop_id a) \<noteq> None"
  using fold_d0_dom [of depot cs Map.empty] by (auto simp: d0_table_def)

lemma fold_dij_dom:
  "dom (fold (\<lambda>(a, b) m. (m(idKey (stop_id b) (stop_id a) \<mapsto> haversineKm a b))
                           (idKey (stop_id a) (stop_id b) \<mapsto> haversineKm a b)) ps m0)
   = dom m0 \<union> (\<lambda>(a, b). idKey (stop_id a) (stop_id b)) ` set ps
            \<union> (\<lambda>(a, b). idKey (stop_id b) (stop_id a)) ` set ps"
  by (induction ps arbitrary: m0) auto

lemma dij_table_defined:
  "(a, b) \<in> set (pairsInOrder cs) \<Longrightarrow> dij_table cs (idKey (stop_id a) (stop_id b)) \<noteq> None"
  using fold_dij_dom [of "pairsInOrder cs" Map.empty] by (force simp: dij_table_def)

text \<open>
  Each merge takes one route away and a stop is never lost, so from \<open>n\<close> stops at most
  \<open>n - 1\<close> merges succeed: at least one route is left.
\<close>

lemma mergeStep_length_cases:
  "length (mergeStep capacity rs e) = length rs \<or> Suc (length (mergeStep capacity rs e)) = length rs"
  using mergeStep_shape [of capacity rs e] by (elim disjE exE conjE) simp_all

lemma mergePhase_length:
  "cs \<noteq> [] \<Longrightarrow> 1 \<le> length (mergePhase depot cs capacity)
     \<and> length (mergePhase depot cs capacity) \<le> length cs"
proof -
  assume ne: "cs \<noteq> []"
  have "mergePhase depot cs capacity \<noteq> []"
  proof
    assume "mergePhase depot cs capacity = []"
    with mergePhase_customers [of depot cs capacity] ne show False by simp
  qed
  moreover have "length (mergePhase depot cs capacity) \<le> length cs"
    using mergeLoop_length [of capacity "initRoutes cs" "savings depot cs"]
    by (simp add: mergePhase_def length_initRoutes)
  ultimately show ?thesis by (cases "mergePhase depot cs capacity") simp_all
qed

subsection \<open>A stop of the id \<open>__proto__\<close>\<close>

lemma jsGreaterEq_NaN [simp]: "\<not> jsGreaterEq NaN b" "\<not> jsGreaterEq a NaN"
  by (simp_all add: jsGreaterEq_def split: jsnum.splits)

lemma nan_not_descending:
  assumes "NaN \<in> set vs" "2 \<le> length vs"
  shows "\<not> sorted_wrt jsGreaterEq vs"
proof
  assume srt: "sorted_wrt jsGreaterEq vs"
  from assms(1) obtain k where k: "k < length vs" "vs ! k = NaN" by (auto simp: in_set_conv_nth)
  show False
  proof (cases "k = 0")
    case True
    from assms(2) have "(0::nat) < 1" "1 < length vs" by simp_all
    with srt have "jsGreaterEq (vs ! 0) (vs ! 1)"
      unfolding sorted_wrt_iff_nth_less by blast
    with True k show False by simp
  next
    case False
    then have "0 < k" by simp
    with k(1) srt have "jsGreaterEq (vs ! 0) (vs ! k)"
      unfolding sorted_wrt_iff_nth_less by blast
    with k show False by simp
  qed
qed

lemma proto_fields [simp]:
  "lat protoStop = 0" "lng protoStop = 1 / 10" "stop_id protoStop = ''__proto__''"
  by (simp_all add: protoStop_def)

lemma proto_savingValues:
  "savingValues selftest_depot [protoStop, pick2, pick3] = [NaN, NaN, Finite (kmPerDeg * (4 / 10))]"
  by (simp add: savingValues_def d0_object_def dij_object_def objectSet_def objectGet_def
      idKey_def Let_def haversineKm_equator)

text \<open>With no stop of the id \<open>__proto__\<close> the plain objects are the dictionaries above.\<close>

lemma idKey_not_proto: "idKey a b \<noteq> ''__proto__''"
proof
  assume "idKey a b = ''__proto__''"
  then have "CHR ''|'' \<in> set ''__proto__''" unfolding idKey_def by (metis in_set_conv_decomp append_Cons)
  then show False by simp
qed

lemma fold_objectSet_d0:
  "\<forall>c\<in>set cs. stop_id c \<noteq> ''__proto__'' \<Longrightarrow>
   fold (\<lambda>c m. objectSet m (stop_id c) (haversineKm depot c)) cs m0
   = fold (\<lambda>c m. m(stop_id c \<mapsto> haversineKm depot c)) cs m0"
  by (induction cs arbitrary: m0) (simp_all add: objectSet_def)

lemma dij_object_eq: "dij_object cs = dij_table cs"
proof -
  have "fold (\<lambda>(a, b) m. objectSet (objectSet m (idKey (stop_id b) (stop_id a)) (haversineKm a b))
                           (idKey (stop_id a) (stop_id b)) (haversineKm a b)) ps m0
      = fold (\<lambda>(a, b) m. (m(idKey (stop_id b) (stop_id a) \<mapsto> haversineKm a b))
                           (idKey (stop_id a) (stop_id b) \<mapsto> haversineKm a b)) ps m0"
    for ps :: "(Stop \<times> Stop) list" and m0
    by (induction ps arbitrary: m0) (auto simp: objectSet_def idKey_not_proto)
  then show ?thesis by (simp add: dij_object_def dij_table_def)
qed

lemma pairsInOrder_mem: "(a, b) \<in> set (pairsInOrder cs) \<Longrightarrow> a \<in> set cs \<and> b \<in> set cs"
  by (induction cs) auto

lemma savingValues_numbers:
  assumes "\<forall>c\<in>set cs. stop_id c \<noteq> ''__proto__''"
  shows "savingValues depot cs = map (\<lambda>e. Finite (sav_s e)) (savingsGenerated depot cs)"
proof -
  have d0: "d0_object depot cs = d0_table depot cs"
    using fold_objectSet_d0 [OF assms] by (simp add: d0_object_def d0_table_def)
  have "(case (objectGet (d0_table depot cs) (stop_id a), objectGet (d0_table depot cs) (stop_id b),
              objectGet (dij_table cs) (idKey (stop_id a) (stop_id b))) of
           (Some x, Some y, Some z) \<Rightarrow> Finite (x + y - z) | _ \<Rightarrow> NaN)
      = Finite (the (d0_table depot cs (stop_id a)) + the (d0_table depot cs (stop_id b))
                 - the (dij_table cs (idKey (stop_id a) (stop_id b))))"
    if p: "(a, b) \<in> set (pairsInOrder cs)" for a b
  proof -
    from pairsInOrder_mem [OF p] have ab: "a \<in> set cs" "b \<in> set cs" by simp_all
    from d0_table_defined [OF ab(1), of depot] obtain x where x: "d0_table depot cs (stop_id a) = Some x"
      by auto
    from d0_table_defined [OF ab(2), of depot] obtain y where y: "d0_table depot cs (stop_id b) = Some y"
      by auto
    from dij_table_defined [OF p] obtain z
      where z: "dij_table cs (idKey (stop_id a) (stop_id b)) = Some z" by auto
    show ?thesis using ab assms by (simp add: objectGet_def idKey_not_proto x y z)
  qed
  then show ?thesis
    by (auto simp: savingValues_def savingsGenerated_def Let_def d0 dij_object_eq)
qed

text \<open>
  C8, on the stops of the self-test with the id \<open>__proto__\<close> for the first: the dictionary
  \<open>d0\<close> is a plain object, so the distance of that stop is never stored and what is read
  back is not a number; the savings of its two pairs are NaN, and no order of the three
  savings is descending.
\<close>

theorem proto_id_savings_not_sorted:
  "savingValues selftest_depot [protoStop, pick2, pick3] = [NaN, NaN, Finite (kmPerDeg * (4 / 10))]
   \<and> \<not> (\<exists>vs. mset vs = mset (savingValues selftest_depot [protoStop, pick2, pick3])
            \<and> sorted_wrt jsGreaterEq vs)"
proof (intro conjI notI)
  show "savingValues selftest_depot [protoStop, pick2, pick3] = [NaN, NaN, Finite (kmPerDeg * (4 / 10))]"
    by (rule proto_savingValues)
  assume "\<exists>vs. mset vs = mset (savingValues selftest_depot [protoStop, pick2, pick3])
            \<and> sorted_wrt jsGreaterEq vs"
  then obtain vs where m: "mset vs = mset [NaN, NaN, Finite (kmPerDeg * (4 / 10))]"
    and s: "sorted_wrt jsGreaterEq vs" unfolding proto_savingValues by blast
  from m have "set vs = set [NaN, NaN, Finite (kmPerDeg * (4 / 10))]" by (rule mset_eq_setD)
  moreover from m have "length vs = length [NaN, NaN, Finite (kmPerDeg * (4 / 10))]"
    by (rule mset_eq_length)
  ultimately have "NaN \<in> set vs" "2 \<le> length vs" by simp_all
  with s nan_not_descending show False by blast
qed

end
